theory Spec2Isabelle
  imports Complex_Main "HOL-Library.Word"
begin

section \<open>k-fold cross-validation (mlpack, \<^verbatim>\<open>core/cv/k_fold_cv_impl.hpp\<close>)\<close>

subsection \<open>Data model\<close>

text \<open>
  \<^verbatim>\<open>size_t\<close> (and Armadillo's \<^verbatim>\<open>uword\<close>) is an unsigned 64-bit integer:
  \<open>+\<close>, \<open>-\<close> and \<open>*\<close> wrap around, \<open>div\<close> is the unsigned division.
\<close>

type_synonym size_t = "64 word"

text \<open>
  The exceptions of the code: \<^verbatim>\<open>std::invalid_argument\<close> and \<^verbatim>\<open>std::logic_error\<close>
  with their messages, the failure of the dataset validator, Armadillo's bounds and
  dimension errors, whatever a collaborator (the model's training or the metric)
  raises (with its message), and \<open>MemoryFault\<close> for a window that reaches past the end of its buffer
  (the code builds its windows from raw column pointers, unchecked).
\<close>

datatype exn =
    invalid_argument string
  | logic_error string
  | DatasetInconsistency
  | ArmaBounds
  | ArmaDimension
  | MemoryFault
  | Raised string

text \<open>
  A column-major matrix: its row count and the list of its columns. A row vector
  (\<^verbatim>\<open>arma::Row\<close>) is a matrix with one row.
\<close>

record 'e Mat =
  n_rows :: size_t
  columns :: "'e list list"

definition n_cols :: "'e Mat \<Rightarrow> size_t" where
  "n_cols m = word_of_nat (length (columns m))"

definition n_elem :: "'e Mat \<Rightarrow> size_t" where
  "n_elem m = n_rows m * n_cols m"

text \<open>
  Armadillo's \<^verbatim>\<open>m.cols(first, last)\<close>: the columns \<open>first .. last\<close>, both included.
  The library checks the range, as it does unless its checks are compiled out:
  \<^verbatim>\<open>first > last || last >= n_cols\<close> raises.
\<close>

definition cols :: "'e Mat \<Rightarrow> size_t \<Rightarrow> size_t \<Rightarrow> exn + 'e Mat" where
  "cols m first_col last_col =
     (if first_col > last_col \<or> last_col \<ge> n_cols m then Inl ArmaBounds
      else Inr (m\<lparr>columns :=
        take (unat (last_col - first_col + 1)) (drop (unat first_col) (columns m))\<rparr>))"

text \<open>
  Armadillo's \<^verbatim>\<open>join_rows(a, b)\<close>: the columns of \<open>b\<close> after those of \<open>a\<close>; the row
  counts must agree unless one of the two is empty.
\<close>

definition join_rows :: "'e Mat \<Rightarrow> 'e Mat \<Rightarrow> exn + 'e Mat" where
  "join_rows a b =
     (if n_rows a \<noteq> n_rows b \<and> n_elem a \<noteq> 0 \<and> n_elem b \<noteq> 0 then Inl ArmaDimension
      else Inr \<lparr>n_rows = max (n_rows a) (n_rows b), columns = columns a @ columns b\<rparr>)"

text \<open>
  The window \<^verbatim>\<open>arma::Mat<ElementType>(m.colptr(first), m.n_rows, count, false, true)\<close>:
  \<open>count\<close> columns of the memory of \<open>m\<close> from column \<open>first\<close> on, not copied and not
  checked. \<open>None\<close> is a window that leaves the buffer.
\<close>

definition colptr_window :: "'e Mat \<Rightarrow> size_t \<Rightarrow> size_t \<Rightarrow> 'e Mat option" where
  "colptr_window m first_col count =
     (if unat first_col + unat count \<le> length (columns m)
      then Some (m\<lparr>columns := take (unat count) (drop (unat first_col) (columns m))\<rparr>)
      else None)"

text \<open>Armadillo's \<^verbatim>\<open>arma::mean\<close> of a vector of scores, over the reals.\<close>

definition mean :: "real list \<Rightarrow> real" where
  "mean v = sum_list v / real (length v)"

text \<open>The members of the class: the fold sizes, the staged buffers, the retained model.\<close>

record fold_sizes =
  k :: size_t
  binSize :: size_t
  lastBinSize :: size_t
  trainingSubsetSize :: size_t

record ('x, 'y, 'w, 'm) KFoldCV = fold_sizes +
  xs :: "'x Mat"
  ys :: "'y Mat"
  weights :: "'w Mat"
  modelPtr :: "'m option"

subsection \<open>Construction\<close>

text \<open>Lines 208 to 210 of \<^verbatim>\<open>InitKFoldCVMat\<close>: the three sizes, assigned in this order.\<close>

definition InitKFoldCVMat_sizes ::
  "size_t \<Rightarrow> 'a fold_sizes_scheme \<Rightarrow> 'a fold_sizes_scheme" where
  "InitKFoldCVMat_sizes source_n_cols h =
     (let h1 = h\<lparr>binSize := source_n_cols div k h\<rparr>;
          h2 = h1\<lparr>trainingSubsetSize := binSize h1 * (k h1 - 1)\<rparr>
      in h2\<lparr>lastBinSize := source_n_cols - (k h2 - 1) * binSize h2\<rparr>)"

text \<open>
  \<^verbatim>\<open>InitKFoldCVMat(source, destination)\<close>: returns the object with its sizes set and
  the staged buffer to store in \<open>destination\<close>.
\<close>

definition InitKFoldCVMat ::
  "'a fold_sizes_scheme \<Rightarrow> 'e Mat \<Rightarrow> exn + ('a fold_sizes_scheme \<times> 'e Mat)" where
  "InitKFoldCVMat h source =
     (let h' = InitKFoldCVMat_sizes (n_cols source) h in
      if k h' = 2 then Inr (h', source)
      else
        (case cols source 0 (trainingSubsetSize h' - binSize h' - 1) of
           Inl e \<Rightarrow> Inl e
         | Inr prefix \<Rightarrow>
            (case join_rows source prefix of
               Inl e \<Rightarrow> Inl e
             | Inr destination \<Rightarrow> Inr (h', destination))))"

text \<open>
  Modelled from the spec: \<^verbatim>\<open>Base::AssertDataConsistency\<close> and
  \<^verbatim>\<open>Base::AssertWeightsConsistency\<close> (class \<^verbatim>\<open>CVBase\<close>) are not among the source files.
  The validator fails when the column counts of the two buffers differ.
\<close>

definition AssertDataConsistency :: "'x Mat \<Rightarrow> 'y Mat \<Rightarrow> exn + unit" where
  "AssertDataConsistency xs0 ys0 =
     (if n_cols xs0 \<noteq> n_cols ys0 then Inl DatasetInconsistency else Inr ())"

definition AssertWeightsConsistency :: "'x Mat \<Rightarrow> 'w Mat \<Rightarrow> exn + unit" where
  "AssertWeightsConsistency xs0 weights0 =
     (if n_cols xs0 \<noteq> n_cols weights0 then Inl DatasetInconsistency else Inr ())"

text \<open>
  The object before the constructor's body runs: \<open>k\<close> is set, the buffers are empty
  matrices, the model pointer is null. The three sizes are not initialised in the code;
  every path that reads them has assigned them first.
\<close>

definition empty_Mat :: "'e Mat" where
  "empty_Mat = \<lparr>n_rows = 0, columns = []\<rparr>"

definition KFoldCV_members :: "size_t \<Rightarrow> ('x, 'y, 'w, 'm) KFoldCV" where
  "KFoldCV_members k0 =
     \<lparr>k = k0, binSize = 0, lastBinSize = 0, trainingSubsetSize = 0,
      xs = empty_Mat, ys = empty_Mat, weights = empty_Mat, modelPtr = None\<rparr>"

text \<open>The constructor \<^verbatim>\<open>KFoldCV(Base&&, k, xs, ys)\<close>.\<close>

definition KFoldCV_ctor ::
  "size_t \<Rightarrow> 'x Mat \<Rightarrow> 'y Mat \<Rightarrow> exn + ('x, 'y, 'w, 'm) KFoldCV" where
  "KFoldCV_ctor k0 xs0 ys0 =
     (let h = KFoldCV_members k0 in
      if k0 < 2 then Inl (invalid_argument ''KFoldCV: k should not be less than 2'')
      else
        (case AssertDataConsistency xs0 ys0 of
           Inl e \<Rightarrow> Inl e
         | Inr _ \<Rightarrow>
            (case InitKFoldCVMat h xs0 of
               Inl e \<Rightarrow> Inl e
             | Inr (h1, dx) \<Rightarrow>
                (case InitKFoldCVMat (h1\<lparr>xs := dx\<rparr>) ys0 of
                   Inl e \<Rightarrow> Inl e
                 | Inr (h2, dy) \<Rightarrow> Inr (h2\<lparr>ys := dy\<rparr>)))))"

text \<open>The constructor \<^verbatim>\<open>KFoldCV(Base&&, k, xs, ys, weights)\<close>, which delegates to the first.\<close>

definition KFoldCV_ctor_weights ::
  "size_t \<Rightarrow> 'x Mat \<Rightarrow> 'y Mat \<Rightarrow> 'w Mat \<Rightarrow> exn + ('x, 'y, 'w, 'm) KFoldCV" where
  "KFoldCV_ctor_weights k0 xs0 ys0 weights0 =
     (case KFoldCV_ctor k0 xs0 ys0 of
        Inl e \<Rightarrow> Inl e
      | Inr h \<Rightarrow>
         (case AssertWeightsConsistency xs0 weights0 of
            Inl e \<Rightarrow> Inl e
          | Inr _ \<Rightarrow>
             (case InitKFoldCVMat h weights0 of
                Inl e \<Rightarrow> Inl e
              | Inr (h1, dw) \<Rightarrow> Inr (h1\<lparr>weights := dw\<rparr>))))"

subsection \<open>Windows\<close>

definition ValidationSubsetFirstCol :: "'a fold_sizes_scheme \<Rightarrow> size_t \<Rightarrow> size_t" where
  "ValidationSubsetFirstCol h i =
     (if i = 0 then trainingSubsetSize h else binSize h * (i - 1))"

text \<open>The local \<^verbatim>\<open>subsetSize\<close> of \<^verbatim>\<open>GetTrainingSubset\<close> and of \<^verbatim>\<open>GetValidationSubset\<close>.\<close>

definition TrainingSubsetSize :: "'a fold_sizes_scheme \<Rightarrow> size_t \<Rightarrow> size_t" where
  "TrainingSubsetSize h i =
     (if i = k h - 1 then lastBinSize h + (k h - 2) * binSize h else trainingSubsetSize h)"

definition ValidationSubsetSize :: "'a fold_sizes_scheme \<Rightarrow> size_t \<Rightarrow> size_t" where
  "ValidationSubsetSize h i = (if i = 0 then lastBinSize h else binSize h)"

definition GetTrainingSubset ::
  "'a fold_sizes_scheme \<Rightarrow> 'e Mat \<Rightarrow> size_t \<Rightarrow> 'e Mat option" where
  "GetTrainingSubset h m i = colptr_window m (binSize h * i) (TrainingSubsetSize h i)"

definition GetValidationSubset ::
  "'a fold_sizes_scheme \<Rightarrow> 'e Mat \<Rightarrow> size_t \<Rightarrow> 'e Mat option" where
  "GetValidationSubset h m i =
     colptr_window m (ValidationSubsetFirstCol h i) (ValidationSubsetSize h i)"

subsection \<open>The train and evaluate loop\<close>

text \<open>
  The collaborators. \<open>train\<close> is \<^verbatim>\<open>base.Train(xs, ys, args...)\<close>, \<open>trainW\<close> is
  \<^verbatim>\<open>base.Train(xs, ys, weights, args...)\<close> and \<open>metric\<close> is \<^verbatim>\<open>Metric::Evaluate\<close>; each
  returns its result or raises.
\<close>

type_synonym ('x, 'y, 'm) train = "'x Mat \<Rightarrow> 'y Mat \<Rightarrow> exn + 'm"
type_synonym ('x, 'y, 'w, 'm) trainW = "'x Mat \<Rightarrow> 'y Mat \<Rightarrow> 'w Mat \<Rightarrow> exn + 'm"
type_synonym ('x, 'y, 'm) metric = "'m \<Rightarrow> 'x Mat \<Rightarrow> 'y Mat \<Rightarrow> exn + real"

text \<open>Lines 232 and 233: the model of fold \<open>i\<close>, trained on the training windows.\<close>

definition TrainFold ::
  "('x, 'y, 'm) train \<Rightarrow> ('x, 'y, 'w, 'm) KFoldCV \<Rightarrow> size_t \<Rightarrow> exn + 'm" where
  "TrainFold train h i =
     (case GetTrainingSubset h (xs h) i of
        None \<Rightarrow> Inl MemoryFault
      | Some tx \<Rightarrow>
         (case GetTrainingSubset h (ys h) i of
            None \<Rightarrow> Inl MemoryFault
          | Some ty \<Rightarrow> train tx ty))"

text \<open>Lines 259 to 263: the same with weights, when the weight buffer is not empty.\<close>

definition TrainFold_weights ::
  "('x, 'y, 'm) train \<Rightarrow> ('x, 'y, 'w, 'm) trainW \<Rightarrow>
   ('x, 'y, 'w, 'm) KFoldCV \<Rightarrow> size_t \<Rightarrow> exn + 'm" where
  "TrainFold_weights train trainW h i =
     (if n_elem (weights h) > 0 then
        (case GetTrainingSubset h (xs h) i of
           None \<Rightarrow> Inl MemoryFault
         | Some tx \<Rightarrow>
            (case GetTrainingSubset h (ys h) i of
               None \<Rightarrow> Inl MemoryFault
             | Some ty \<Rightarrow>
                (case GetTrainingSubset h (weights h) i of
                   None \<Rightarrow> Inl MemoryFault
                 | Some tw \<Rightarrow> trainW tx ty tw)))
      else TrainFold train h i)"

text \<open>Lines 234 and 235: the score of a model on the validation windows of fold \<open>i\<close>.\<close>

definition EvaluateFold ::
  "('x, 'y, 'm) metric \<Rightarrow> ('x, 'y, 'w, 'm) KFoldCV \<Rightarrow> 'm \<Rightarrow> size_t \<Rightarrow> exn + real" where
  "EvaluateFold metric h model i =
     (case GetValidationSubset h (xs h) i of
        None \<Rightarrow> Inl MemoryFault
      | Some vx \<Rightarrow>
         (case GetValidationSubset h (ys h) i of
            None \<Rightarrow> Inl MemoryFault
          | Some vy \<Rightarrow> metric model vx vy))"

text \<open>
  The loop \<^verbatim>\<open>for (size_t i = 0; i < k; ++i)\<close>, from index \<open>i\<close> on. It returns the object
  as the loop leaves it, with the scores or with the exception that ended the loop.
  \<open>trainer\<close> is the training step of the overload.
\<close>

function TrainAndEvaluate_loop ::
  "(('x, 'y, 'w, 'm) KFoldCV \<Rightarrow> size_t \<Rightarrow> exn + 'm) \<Rightarrow> ('x, 'y, 'm) metric \<Rightarrow>
   ('x, 'y, 'w, 'm) KFoldCV \<Rightarrow> size_t \<Rightarrow> real list \<Rightarrow>
   ('x, 'y, 'w, 'm) KFoldCV \<times> (exn + real list)" where
  "TrainAndEvaluate_loop trainer metric h i evaluations =
     (if i < k h then
        (case trainer h i of
           Inl e \<Rightarrow> (h, Inl e)
         | Inr model \<Rightarrow>
            (case EvaluateFold metric h model i of
               Inl e \<Rightarrow> (h, Inl e)
             | Inr score \<Rightarrow>
                TrainAndEvaluate_loop trainer metric
                  (if i = k h - 1 then h\<lparr>modelPtr := Some model\<rparr> else h)
                  (i + 1) (evaluations[unat i := score])))
      else (h, Inr evaluations))"
  by pat_completeness auto

termination
proof -
  have step: "unat (i + 1) = Suc (unat i)" if "i < n" for i n :: size_t
  proof -
    from that have "unat i < unat n" by (simp add: word_less_nat_alt)
    moreover have "unat n < 2 ^ 64" using unsigned_less [of n] by simp
    ultimately have "unat i + unat (1::size_t) < 2 ^ LENGTH(64)" by simp
    then show ?thesis by (simp add: unat_add_lem [THEN iffD1])
  qed
  show ?thesis
    by (relation "measure (\<lambda>(trainer, metric, h, i, evaluations). unat (k h) - unat i)")
       (auto simp: step word_less_nat_alt)
qed

text \<open>
  \<^verbatim>\<open>TrainAndEvaluate\<close>, the overload for a model without weights, and the overload for a
  model that supports them. \<^verbatim>\<open>arma::vec evaluations(k)\<close> is a vector of \<open>k\<close> scores, each
  written before it is read.
\<close>

definition TrainAndEvaluate ::
  "('x, 'y, 'm) train \<Rightarrow> ('x, 'y, 'm) metric \<Rightarrow> ('x, 'y, 'w, 'm) KFoldCV \<Rightarrow>
   ('x, 'y, 'w, 'm) KFoldCV \<times> (exn + real)" where
  "TrainAndEvaluate train metric h =
     (case TrainAndEvaluate_loop (TrainFold train) metric h 0 (replicate (unat (k h)) 0) of
        (h', Inl e) \<Rightarrow> (h', Inl e)
      | (h', Inr evaluations) \<Rightarrow> (h', Inr (mean evaluations)))"

definition TrainAndEvaluate_weights ::
  "('x, 'y, 'm) train \<Rightarrow> ('x, 'y, 'w, 'm) trainW \<Rightarrow> ('x, 'y, 'm) metric \<Rightarrow>
   ('x, 'y, 'w, 'm) KFoldCV \<Rightarrow> ('x, 'y, 'w, 'm) KFoldCV \<times> (exn + real)" where
  "TrainAndEvaluate_weights train trainW metric h =
     (case TrainAndEvaluate_loop (TrainFold_weights train trainW) metric h 0
             (replicate (unat (k h)) 0) of
        (h', Inl e) \<Rightarrow> (h', Inl e)
      | (h', Inr evaluations) \<Rightarrow> (h', Inr (mean evaluations)))"

text \<open>
  \<^verbatim>\<open>Evaluate(args...)\<close> forwards to the overload of \<^verbatim>\<open>TrainAndEvaluate\<close> that the model
  type selects: the first when the model does not support weights, the second when it
  does. \<open>training\<close> is that capability of the model, with \<^verbatim>\<open>args\<close> bound.
\<close>

datatype ('x, 'y, 'w, 'm) training =
    Unweighted "('x, 'y, 'm) train"
  | SupportsWeights "('x, 'y, 'm) train" "('x, 'y, 'w, 'm) trainW"

definition Evaluate ::
  "('x, 'y, 'w, 'm) training \<Rightarrow> ('x, 'y, 'm) metric \<Rightarrow> ('x, 'y, 'w, 'm) KFoldCV \<Rightarrow>
   ('x, 'y, 'w, 'm) KFoldCV \<times> (exn + real)" where
  "Evaluate training metric h =
     (case training of
        Unweighted train \<Rightarrow> TrainAndEvaluate train metric h
      | SupportsWeights train trainW \<Rightarrow> TrainAndEvaluate_weights train trainW metric h)"

definition Model :: "('x, 'y, 'w, 'm) KFoldCV \<Rightarrow> exn + 'm" where
  "Model h =
     (case modelPtr h of
        None \<Rightarrow> Inl (logic_error ''KFoldCV::Model(): attempted to access an uninitialized model'')
      | Some model \<Rightarrow> Inr model)"

subsection \<open>Notions used to state the properties\<close>

text \<open>The training step of fold \<open>i\<close> that a call of \<open>Evaluate\<close> runs.\<close>

definition trainer :: 
  "('x, 'y, 'w, 'm) training \<Rightarrow> ('x, 'y, 'w, 'm) KFoldCV \<Rightarrow> size_t \<Rightarrow> exn + 'm" where
  "trainer training =
     (case training of
        Unweighted train \<Rightarrow> TrainFold train
      | SupportsWeights train trainW \<Rightarrow> TrainFold_weights train trainW)"

text \<open>
  The score of fold \<open>i\<close> for the training step \<open>tr\<close>: the metric of the model
  trained on the training windows of the fold, on its validation windows; or the
  exception that the fold raises.
\<close>

definition fold_score ::
  "(('x, 'y, 'w, 'm) KFoldCV \<Rightarrow> size_t \<Rightarrow> exn + 'm) \<Rightarrow> ('x, 'y, 'm) metric \<Rightarrow>
   ('x, 'y, 'w, 'm) KFoldCV \<Rightarrow> size_t \<Rightarrow> exn + real" where
  "fold_score tr metric h i =
     (case tr h i of
        Inl e \<Rightarrow> Inl e
      | Inr model \<Rightarrow> EvaluateFold metric h model i)"

text \<open>
  A client that calls \<open>Evaluate\<close> several times in a row, each call with its own
  arguments: the object after the last call, and the outcome of each call.
\<close>

fun Evaluate_calls ::
  "('x, 'y, 'm) metric \<Rightarrow> ('x, 'y, 'w, 'm) training list \<Rightarrow> ('x, 'y, 'w, 'm) KFoldCV \<Rightarrow>
   ('x, 'y, 'w, 'm) KFoldCV \<times> (exn + real) list" where
  "Evaluate_calls metric [] h = (h, [])"
| "Evaluate_calls metric (training # rest) h =
     (case Evaluate training metric h of
        (h', outcome) \<Rightarrow>
          (case Evaluate_calls metric rest h' of
             (h'', outcomes) \<Rightarrow> (h'', outcome # outcomes)))"

text \<open>
  The column of the original buffer that column \<open>j\<close> of a staged buffer holds, for a
  buffer of \<open>n\<close> columns: the staged buffer is the original followed by a copy of its
  first columns.
\<close>

definition original_column :: "nat \<Rightarrow> nat \<Rightarrow> nat" where
  "original_column n j = (if j < n then j else j - n)"

text \<open>The columns of the staged buffer that the validation window of fold \<open>i\<close> covers.\<close>

definition validation_columns :: "'a fold_sizes_scheme \<Rightarrow> size_t \<Rightarrow> nat set" where
  "validation_columns h i =
     {unat (ValidationSubsetFirstCol h i) ..<
      unat (ValidationSubsetFirstCol h i) + unat (ValidationSubsetSize h i)}"

text \<open>
  The staging of a buffer in the words of the specification, in unbounded arithmetic:
  for \<open>k = 2\<close> the buffer itself, otherwise the buffer followed by a copy of its columns
  \<open>0 .. trainingSubsetSize - binSize - 1\<close>.
\<close>

definition Stage :: "nat \<Rightarrow> 'e Mat \<Rightarrow> 'e Mat" where
  "Stage kn buffer =
     (let n = length (columns buffer);
          bin = n div kn;
          training = bin * (kn - 1)
      in if kn = 2 then buffer
         else buffer\<lparr>columns := columns buffer @ take (training - bin) (columns buffer)\<rparr>)"

text \<open>
  \<open>h\<close> is the object that one of the two constructors returns for \<open>k0\<close> and the buffers
  \<open>xs0\<close>, \<open>ys0\<close> (and \<open>weights0\<close>). A buffer has fewer than \<open>2 ^ 64\<close> columns, so
  that \<^verbatim>\<open>n_cols\<close> is its number of columns.
\<close>

definition constructed ::
  "size_t \<Rightarrow> 'x Mat \<Rightarrow> 'y Mat \<Rightarrow> 'w Mat \<Rightarrow> ('x, 'y, 'w, 'm) KFoldCV \<Rightarrow> bool" where
  "constructed k0 xs0 ys0 weights0 h \<longleftrightarrow>
     length (columns xs0) < 2 ^ 64 \<and> length (columns ys0) < 2 ^ 64 \<and>
     length (columns weights0) < 2 ^ 64 \<and>
     (KFoldCV_ctor k0 xs0 ys0 = Inr h \<or> KFoldCV_ctor_weights k0 xs0 ys0 weights0 = Inr h)"

text \<open>
  The invariant of a constructed object over \<open>n\<close> samples: \<open>k \<ge> 2\<close>, and the three
  sizes have the values of the unbounded arithmetic.
\<close>

definition sizes_inv :: "nat \<Rightarrow> 'a fold_sizes_scheme \<Rightarrow> bool" where
  "sizes_inv n h \<longleftrightarrow>
     2 \<le> unat (k h) \<and> n < 2 ^ 64 \<and>
     unat (binSize h) = n div unat (k h) \<and>
     unat (trainingSubsetSize h) = (n div unat (k h)) * (unat (k h) - 1) \<and>
     unat (lastBinSize h) = n - (n div unat (k h)) * (unat (k h) - 1)"

subsection \<open>An example: ten samples in three folds\<close>

text \<open>
  Ten samples of one feature and their labels; the object that the constructor builds
  from them for \<open>k = 3\<close>; a model that records how many samples it was trained on,
  and a metric that counts the samples it is evaluated on.
\<close>

definition ex_xs :: "nat Mat" where
  "ex_xs = \<lparr>n_rows = 1,
             columns = [[10], [11], [12], [13], [14], [15], [16], [17], [18], [19]]\<rparr>"

definition ex_ys :: "nat Mat" where
  "ex_ys = \<lparr>n_rows = 1, columns = [[0], [1], [0], [1], [0], [1], [0], [1], [0], [1]]\<rparr>"

definition ex_h :: "(nat, nat, nat, nat) KFoldCV" where
  "ex_h =
     \<lparr>k = 3, binSize = 3, lastBinSize = 4, trainingSubsetSize = 6,
      xs = \<lparr>n_rows = 1,
             columns = [[10], [11], [12], [13], [14], [15], [16], [17], [18], [19],
                        [10], [11], [12]]\<rparr>,
      ys = \<lparr>n_rows = 1,
             columns = [[0], [1], [0], [1], [0], [1], [0], [1], [0], [1], [0], [1], [0]]\<rparr>,
      weights = empty_Mat, modelPtr = None\<rparr>"

definition ex_train :: "(nat, nat, nat) train" where
  "ex_train tx ty = Inr (length (columns tx))"

definition ex_metric :: "(nat, nat, nat) metric" where
  "ex_metric model vx vy = Inr (real (length (columns vx)))"

text \<open>A training that raises when it is given seven samples, as the last fold does.\<close>

definition ex_failing_train :: "(nat, nat, nat) train" where
  "ex_failing_train tx ty =
     (if length (columns tx) = 7 then Inl (Raised ''no convergence'')
      else Inr (length (columns tx)))"

section \<open>Fold sizes\<close>

lemma sizes_k [simp]: "k (InitKFoldCVMat_sizes n h) = k h"
  by (simp add: InitKFoldCVMat_sizes_def Let_def)

lemma sizes_fields:
  "binSize (InitKFoldCVMat_sizes n h) = n div k h"
  "trainingSubsetSize (InitKFoldCVMat_sizes n h) = (n div k h) * (k h - 1)"
  "lastBinSize (InitKFoldCVMat_sizes n h) = n - (k h - 1) * (n div k h)"
  by (simp_all add: InitKFoldCVMat_sizes_def Let_def)

lemma unat_k_minus_1: "2 \<le> (c::size_t) \<Longrightarrow> unat (c - 1) = unat c - 1"
  by (rule unat_minus_one) auto

lemma unat_k_ge_2: "2 \<le> (c::size_t) \<Longrightarrow> 2 \<le> unat c"
  by (simp add: word_le_nat_alt)

lemma unat_k_minus_2: 
  assumes "2 \<le> (c::size_t)" shows "unat (c - 2) = unat c - 2"
  using assms by (simp add: unat_sub)

lemma div_mult_pred_le: "(n::nat) div c * (c - 1) \<le> n"
proof -
  have "n div c * (c - 1) \<le> n div c * c" by (rule mult_le_mono2) simp
  also have "\<dots> \<le> n" by simp
  finally show ?thesis .
qed

lemma unat_bin_mult:
  fixes n c i :: size_t
  assumes "i < c"
  shows "unat ((n div c) * i) = (unat n div unat c) * unat i"
proof -
  have "unat i \<le> unat c" using assms by (simp add: word_less_nat_alt)
  then have "unat n div unat c * unat i \<le> unat n div unat c * unat c"
    by (rule mult_le_mono2)
  also have "\<dots> \<le> unat n" by simp
  also have "\<dots> < 2 ^ LENGTH(64)" by (rule unsigned_less)
  finally have "unat (n div c) * unat i < 2 ^ LENGTH(64)" by (simp add: unat_div)
  then show ?thesis by (simp add: unat_mult_lem [THEN iffD1] unat_div)
qed

lemma sizes_unat:
  assumes "2 \<le> k h"
  shows "unat (binSize (InitKFoldCVMat_sizes n h)) = unat n div unat (k h)"
    and "unat (trainingSubsetSize (InitKFoldCVMat_sizes n h)) =
           (unat n div unat (k h)) * (unat (k h) - 1)"
    and "unat (lastBinSize (InitKFoldCVMat_sizes n h)) =
           unat n - (unat n div unat (k h)) * (unat (k h) - 1)"
proof -
  have lt: "k h - 1 < k h"
    using unat_k_minus_1 [OF assms] unat_k_ge_2 [OF assms] by (simp add: word_less_nat_alt)
  show "unat (binSize (InitKFoldCVMat_sizes n h)) = unat n div unat (k h)"
    by (simp add: sizes_fields unat_div)
  show t: "unat (trainingSubsetSize (InitKFoldCVMat_sizes n h)) =
           (unat n div unat (k h)) * (unat (k h) - 1)"
    using unat_bin_mult [OF lt, of n] assms by (simp add: sizes_fields unat_k_minus_1)
  have "(k h - 1) * (n div k h) \<le> n"
    using t div_mult_pred_le [of "unat n" "unat (k h)"]
    by (simp add: word_le_nat_alt sizes_fields mult.commute)
  then show "unat (lastBinSize (InitKFoldCVMat_sizes n h)) =
           unat n - (unat n div unat (k h)) * (unat (k h) - 1)"
    using t by (simp add: sizes_fields unat_sub mult.commute)
qed


text \<open>
  Claim C2. For every sample count \<open>n\<close> and every \<open>k \<ge> 2\<close>, the sizes set by
  \<^verbatim>\<open>InitKFoldCVMat\<close> are, in unbounded arithmetic (nothing wraps around and no
  subtraction goes below zero): \<open>binSize = n div k\<close>,
  \<open>trainingSubsetSize = binSize * (k - 1)\<close> and \<open>lastBinSize = n - (k - 1) * binSize\<close>.
  When moreover \<open>n \<ge> k\<close>, \<open>binSize * (k - 1) + lastBinSize = n\<close> and
  \<open>1 \<le> lastBinSize \<le> n - binSize * (k - 2)\<close>.
\<close>

theorem fold_geometry:
  assumes "2 \<le> k h"
  shows "k (InitKFoldCVMat_sizes n h) = k h
    \<and> unat (binSize (InitKFoldCVMat_sizes n h)) = unat n div unat (k h)
    \<and> unat (trainingSubsetSize (InitKFoldCVMat_sizes n h)) =
        unat (binSize (InitKFoldCVMat_sizes n h)) * (unat (k h) - 1)
    \<and> int (unat (lastBinSize (InitKFoldCVMat_sizes n h))) =
        int (unat n) - (int (unat (k h)) - 1) * int (unat (binSize (InitKFoldCVMat_sizes n h)))
    \<and> (k h \<le> n \<longrightarrow>
        unat (binSize (InitKFoldCVMat_sizes n h)) * (unat (k h) - 1)
          + unat (lastBinSize (InitKFoldCVMat_sizes n h)) = unat n
        \<and> 1 \<le> unat (lastBinSize (InitKFoldCVMat_sizes n h))
        \<and> int (unat (lastBinSize (InitKFoldCVMat_sizes n h))) \<le>
            int (unat n) - int (unat (binSize (InitKFoldCVMat_sizes n h))) * (int (unat (k h)) - 2))"
proof -
  define K where "K = unat (k h)"
  define N where "N = unat n"
  define b where "b = N div K"
  have K2: "2 \<le> K" using assms by (simp add: K_def unat_k_ge_2)
  have bs: "unat (binSize (InitKFoldCVMat_sizes n h)) = b"
    and ts: "unat (trainingSubsetSize (InitKFoldCVMat_sizes n h)) = b * (K - 1)"
    and ls: "unat (lastBinSize (InitKFoldCVMat_sizes n h)) = N - b * (K - 1)"
    using sizes_unat [OF assms, of n] by (simp_all add: K_def N_def b_def)
  have le: "b * (K - 1) \<le> N" unfolding b_def by (rule div_mult_pred_le)
  have bK: "b * K \<le> N" unfolding b_def by simp
  have split: "b * K = b * (K - 1) + b" using K2 by (cases K) simp_all
  have split2: "b * (K - 1) = b * (K - 2) + b"
  proof -
    from K2 have "K - 1 = Suc (K - 2)" by arith
    then show ?thesis by (simp only: mult_Suc_right add.commute)
  qed
  have i1: "int (K - 1) = int K - 1" and i2: "int (K - 2) = int K - 2" using K2 by auto
  have prod1: "int (b * (K - 1)) = int b * (int K - 1)"
    unfolding of_nat_mult i1 ..
  have prod2: "int (b * (K - 2)) = int b * (int K - 2)"
    unfolding of_nat_mult i2 ..
  have diff1: "int (N - b * (K - 1)) = int N - int (b * (K - 1))"
    using le by (rule of_nat_diff)
  have last_int: "int (N - b * (K - 1)) = int N - (int K - 1) * int b"
    unfolding diff1 prod1 by (simp add: mult.commute)
  have pos: "1 \<le> b" if "k h \<le> n"
  proof -
    from that have "K \<le> N" by (simp add: K_def N_def word_le_nat_alt)
    then show ?thesis using K2 unfolding b_def by (simp add: Suc_le_eq div_greater_zero_iff)
  qed
  have upper: "int (N - b * (K - 1)) \<le> int N - int b * (int K - 2)"
  proof -
    have "int (N - b * (K - 1)) = int N - int (b * (K - 2) + b)"
      by (subst split2 [symmetric]) (rule diff1)
    also have "\<dots> \<le> int N - int (b * (K - 2))" by simp
    also have "\<dots> = int N - int b * (int K - 2)" unfolding prod2 ..
    finally show ?thesis .
  qed
  have sum: "b * (K - 1) + (N - b * (K - 1)) = N" using le by simp
  have low: "1 \<le> N - b * (K - 1)" if "k h \<le> n"
    using pos [OF that] bK split by linarith
  show ?thesis
    unfolding bs ts ls K_def [symmetric] N_def [symmetric]
  proof (intro conjI impI)
    show "k (InitKFoldCVMat_sizes n h) = k h" by (rule sizes_k)
    show "b = N div K" by (rule b_def)
    show "b * (K - 1) = b * (K - 1)" ..
    show "int (N - b * (K - 1)) = int N - (int K - 1) * int b" by (rule last_int)
    show "b * (K - 1) + (N - b * (K - 1)) = N" by (rule sum)
    show "1 \<le> N - b * (K - 1)" if "k h \<le> n" using that by (rule low)
    show "int (N - b * (K - 1)) \<le> int N - int b * (int K - 2)" by (rule upper)
  qed
qed

theorem fold_geometry_witness:
  "(2::size_t) \<le> 3 \<and> (3::size_t) \<le> 10
   \<and> unat (binSize (InitKFoldCVMat_sizes 10
        \<lparr>k = 3, binSize = 0, lastBinSize = 0, trainingSubsetSize = 0\<rparr>)) = 3
   \<and> unat (trainingSubsetSize (InitKFoldCVMat_sizes 10
        \<lparr>k = 3, binSize = 0, lastBinSize = 0, trainingSubsetSize = 0\<rparr>)) = 6
   \<and> unat (lastBinSize (InitKFoldCVMat_sizes 10
        \<lparr>k = 3, binSize = 0, lastBinSize = 0, trainingSubsetSize = 0\<rparr>)) = 4"
  using fold_geometry
    [of "\<lparr>k = 3, binSize = 0, lastBinSize = 0, trainingSubsetSize = 0\<rparr>" 10]
  by simp

section \<open>Construction and staging\<close>

lemma n_cols_unat: "length (columns m) < 2 ^ 64 \<Longrightarrow> unat (n_cols m) = length (columns m)"
  by (simp add: n_cols_def unat_of_nat)

lemma InitKFoldCVMat_two:
  "k h = 2 \<Longrightarrow> InitKFoldCVMat h source = Inr (InitKFoldCVMat_sizes (n_cols source) h, source)"
  by (simp add: InitKFoldCVMat_def Let_def)

text \<open>The number of columns that staging appends: \<open>trainingSubsetSize - binSize\<close>.\<close>

lemma unat_extra:
  assumes "2 \<le> k h"
  shows "unat (trainingSubsetSize (InitKFoldCVMat_sizes n h) - binSize (InitKFoldCVMat_sizes n h))
         = (unat n div unat (k h)) * (unat (k h) - 2)"
proof -
  let ?b = "unat n div unat (k h)"
  have K2: "2 \<le> unat (k h)" using assms by (rule unat_k_ge_2)
  have "unat (k h) - 1 = Suc (unat (k h) - 2)" using K2 by arith
  then have eq: "?b * (unat (k h) - 1) = ?b * (unat (k h) - 2) + ?b"
    by (simp only: mult_Suc_right add.commute)
  have "unat (binSize (InitKFoldCVMat_sizes n h)) \<le> unat (trainingSubsetSize (InitKFoldCVMat_sizes n h))"
    using eq by (simp add: sizes_unat [OF assms])
  then have "binSize (InitKFoldCVMat_sizes n h) \<le> trainingSubsetSize (InitKFoldCVMat_sizes n h)"
    by (simp add: word_le_nat_alt)
  then show ?thesis using eq by (simp add: unat_sub sizes_unat [OF assms])
qed

lemma InitKFoldCVMat_more:
  assumes k3: "2 < k h" and len: "length (columns source) < 2 ^ 64"
    and nk: "k h \<le> n_cols source"
  shows "InitKFoldCVMat h source =
    Inr (InitKFoldCVMat_sizes (n_cols source) h,
         source\<lparr>columns := columns source @
           take ((length (columns source) div unat (k h)) * (unat (k h) - 2)) (columns source)\<rparr>)"
proof -
  let ?h = "InitKFoldCVMat_sizes (n_cols source) h"
  let ?N = "length (columns source)"
  let ?K = "unat (k h)"
  let ?e = "trainingSubsetSize ?h - binSize ?h"
  have k2: "2 \<le> k h" using k3 by simp
  have N: "unat (n_cols source) = ?N" using len by (rule n_cols_unat)
  have K3: "3 \<le> ?K" using k3 by (simp add: word_less_nat_alt)
  have KN: "?K \<le> ?N" using nk N by (simp add: word_le_nat_alt)
  have b1: "1 \<le> ?N div ?K" using K3 KN by (simp add: Suc_le_eq div_greater_zero_iff)
  have e: "unat ?e = (?N div ?K) * (?K - 2)" using unat_extra [OF k2, of "n_cols source"] N by simp
  have e1: "1 \<le> unat ?e" unfolding e using b1 K3 by (simp add: Suc_le_eq)
  have "(?N div ?K) * (?K - 2) \<le> (?N div ?K) * ?K" by (rule mult_le_mono2) simp
  also have "\<dots> \<le> ?N" by simp
  finally have eN: "unat ?e \<le> ?N" unfolding e .
  have ne0: "?e \<noteq> 0" using e1 by (auto simp: unat_gt_0 [symmetric] simp del: unat_gt_0)
  have ep: "unat (?e - 1) = unat ?e - 1" using ne0 by (rule unat_minus_one)
  have lt: "?e - 1 < n_cols source" using ep e1 eN N by (simp add: word_less_nat_alt)
  have succ_pred: "?e - 1 + 1 = ?e" by simp
  have c: "cols source 0 (?e - 1) = Inr (source\<lparr>columns := take (unat ?e) (columns source)\<rparr>)"
    using lt by (simp add: cols_def succ_pred not_le [symmetric])
  have j: "join_rows source (source\<lparr>columns := take (unat ?e) (columns source)\<rparr>)
    = Inr (source\<lparr>columns := columns source @ take (unat ?e) (columns source)\<rparr>)"
    by (simp add: join_rows_def)
  have kne: "k ?h \<noteq> 2" using k3 by auto
  show ?thesis using kne
    by (simp add: InitKFoldCVMat_def Let_def c j e [symmetric])
qed

lemma InitKFoldCVMat_few:
  assumes k3: "2 < k h" and len: "length (columns source) < 2 ^ 64"
    and nk: "n_cols source < k h"
  shows "InitKFoldCVMat h source = Inl ArmaBounds"
proof -
  let ?h = "InitKFoldCVMat_sizes (n_cols source) h"
  have k2: "2 \<le> k h" using k3 by simp
  have "unat (n_cols source) div unat (k h) = 0" using nk by (simp add: word_less_nat_alt)
  then have "unat (binSize ?h) = 0" "unat (trainingSubsetSize ?h) = 0"
    by (simp_all add: sizes_unat [OF k2])
  then have "binSize ?h = 0" "trainingSubsetSize ?h = 0" by (simp_all add: unat_eq_zero)
  then have c: "cols source 0 (trainingSubsetSize ?h - binSize ?h - 1) = Inl ArmaBounds" 
    by (simp add: cols_def)
  have kne: "k ?h \<noteq> 2" using k3 by auto
  show ?thesis using kne by (simp add: InitKFoldCVMat_def Let_def c)
qed


lemma InitKFoldCVMat_Inr_sizes:
  "InitKFoldCVMat h source = Inr (h', d) \<Longrightarrow> h' = InitKFoldCVMat_sizes (n_cols source) h"
  by (auto simp: InitKFoldCVMat_def Let_def split: if_splits sum.splits)

lemma Stage_more:
  assumes "2 < kn"
  shows "Stage kn m =
    m\<lparr>columns := columns m @ take ((length (columns m) div kn) * (kn - 2)) (columns m)\<rparr>"
proof -
  let ?b = "length (columns m) div kn"
  from assms have "kn - 1 = Suc (kn - 2)" by arith
  then have "?b * (kn - 1) = ?b * (kn - 2) + ?b"
    by (simp only: mult_Suc_right add.commute)
  then have "?b * (kn - 1) - ?b = ?b * (kn - 2)" by simp
  then show ?thesis using assms by (simp add: Stage_def Let_def)
qed

lemma InitKFoldCVMat_ok:
  assumes k2: "2 \<le> k h" and len: "length (columns source) < 2 ^ 64"
    and nk: "k h = 2 \<or> k h \<le> n_cols source"
  shows "InitKFoldCVMat h source =
    Inr (InitKFoldCVMat_sizes (n_cols source) h, Stage (unat (k h)) source)"
proof (cases "k h = 2")
  case True
  then show ?thesis by (simp add: InitKFoldCVMat_two Stage_def)
next
  case False
  with k2 have k3: "2 < k h" by simp
  then have "2 < unat (k h)" by (simp add: word_less_nat_alt)
  moreover from False nk have "k h \<le> n_cols source" by simp
  ultimately show ?thesis using len k3 by (simp add: InitKFoldCVMat_more Stage_more)
qed

lemma InitKFoldCVMat_Inr_cond:
  assumes ok: "InitKFoldCVMat h source = Inr r" and k2: "2 \<le> k h"
    and len: "length (columns source) < 2 ^ 64"
  shows "k h = 2 \<or> k h \<le> n_cols source"
proof (rule ccontr)
  assume "\<not> (k h = 2 \<or> k h \<le> n_cols source)"
  then have "2 < k h" "n_cols source < k h" using k2 by auto
  then have "InitKFoldCVMat h source = Inl ArmaBounds" using len by (simp add: InitKFoldCVMat_few)
  with ok show False by simp
qed

lemma sizes_update:
  "InitKFoldCVMat_sizes n (h\<lparr>xs := v\<rparr>) = (InitKFoldCVMat_sizes n h)\<lparr>xs := v\<rparr>"
  "InitKFoldCVMat_sizes n (h\<lparr>ys := u\<rparr>) = (InitKFoldCVMat_sizes n h)\<lparr>ys := u\<rparr>"
  "InitKFoldCVMat_sizes n (h\<lparr>weights := w\<rparr>) = (InitKFoldCVMat_sizes n h)\<lparr>weights := w\<rparr>"
  by (simp_all add: InitKFoldCVMat_sizes_def Let_def)

lemma sizes_idem:
  "InitKFoldCVMat_sizes n (InitKFoldCVMat_sizes n h) = InitKFoldCVMat_sizes n h"
  by (simp add: InitKFoldCVMat_sizes_def Let_def)

lemma sizes_other_fields [simp]:
  "xs (InitKFoldCVMat_sizes n h) = xs h"
  "ys (InitKFoldCVMat_sizes n h) = ys h"
  "weights (InitKFoldCVMat_sizes n h) = weights h"
  "modelPtr (InitKFoldCVMat_sizes n h) = modelPtr h"
  by (simp_all add: InitKFoldCVMat_sizes_def Let_def)

text \<open>The object that the first constructor returns, and when it returns one.\<close>

lemma KFoldCV_ctor_ok:
  assumes k2: "2 \<le> k0" and nc: "n_cols xs0 = n_cols ys0"
    and lenx: "length (columns xs0) < 2 ^ 64" and leny: "length (columns ys0) < 2 ^ 64"
    and cond: "k0 = 2 \<or> k0 \<le> n_cols xs0"
  shows "KFoldCV_ctor k0 xs0 ys0 =
    Inr ((InitKFoldCVMat_sizes (n_cols xs0) (KFoldCV_members k0))
          \<lparr>xs := Stage (unat k0) xs0, ys := Stage (unat k0) ys0\<rparr>)"
proof -
  let ?m = "KFoldCV_members k0 :: ('a, 'b, 'c, 'd) KFoldCV"
  let ?h1 = "(InitKFoldCVMat_sizes (n_cols xs0) ?m)\<lparr>xs := Stage (unat k0) xs0\<rparr>"
  have km: "k ?m = k0" by (simp add: KFoldCV_members_def)
  have i1: "InitKFoldCVMat ?m xs0 =
      Inr (InitKFoldCVMat_sizes (n_cols xs0) ?m, Stage (unat k0) xs0)"
    using InitKFoldCVMat_ok [of ?m xs0] k2 lenx cond km by simp
  have kh1: "k ?h1 = k0" by (simp add: km)
  have "InitKFoldCVMat ?h1 ys0 =
      Inr (InitKFoldCVMat_sizes (n_cols ys0) ?h1, Stage (unat k0) ys0)"
    using InitKFoldCVMat_ok [of ?h1 ys0] k2 leny cond kh1 nc by simp
  moreover have "InitKFoldCVMat_sizes (n_cols ys0) ?h1 = ?h1"
    by (simp add: nc [symmetric] sizes_update sizes_idem)
  ultimately have i2: "InitKFoldCVMat ?h1 ys0 = Inr (?h1, Stage (unat k0) ys0)"
    by simp
  have adc: "AssertDataConsistency xs0 ys0 = Inr ()"
    using nc by (simp add: AssertDataConsistency_def)
  have nlt: "\<not> k0 < 2" using k2 by simp
  show ?thesis by (simp add: KFoldCV_ctor_def Let_def adc nlt i1 i2)
qed

lemma KFoldCV_ctor_Inr:
  assumes ok: "KFoldCV_ctor k0 xs0 ys0 = Inr h"
    and lenx: "length (columns xs0) < 2 ^ 64" and leny: "length (columns ys0) < 2 ^ 64"
  shows "2 \<le> k0" and "k0 = 2 \<or> k0 \<le> n_cols xs0"
    and "length (columns ys0) = length (columns xs0)"
    and "h = (InitKFoldCVMat_sizes (n_cols xs0) (KFoldCV_members k0))
          \<lparr>xs := Stage (unat k0) xs0, ys := Stage (unat k0) ys0\<rparr>"
proof -
  let ?m = "KFoldCV_members k0 :: ('a, 'b, 'c, 'd) KFoldCV"
  show k2: "2 \<le> k0" using ok by (auto simp: KFoldCV_ctor_def Let_def not_less split: if_splits)
  have km: "k ?m = k0" by (simp add: KFoldCV_members_def)
  have nc: "n_cols xs0 = n_cols ys0"
    using ok k2 by (auto simp: KFoldCV_ctor_def Let_def AssertDataConsistency_def split: if_splits)
  then have "unat (n_cols xs0) = unat (n_cols ys0)" by simp
  then show "length (columns ys0) = length (columns xs0)"
    using lenx leny by (simp add: n_cols_unat)
  from ok k2 nc obtain h1 dx where i1: "InitKFoldCVMat ?m xs0 = Inr (h1, dx)"
    by (auto simp: KFoldCV_ctor_def Let_def AssertDataConsistency_def
        split: if_splits sum.splits)
  show cond: "k0 = 2 \<or> k0 \<le> n_cols xs0"
    using InitKFoldCVMat_Inr_cond [OF i1] k2 lenx km by simp
  show "h = (InitKFoldCVMat_sizes (n_cols xs0) (KFoldCV_members k0))
          \<lparr>xs := Stage (unat k0) xs0, ys := Stage (unat k0) ys0\<rparr>"
    using KFoldCV_ctor_ok [OF k2 nc lenx leny cond, where ?'c = 'c and ?'d = 'd] ok by simp
qed

text \<open>The same for the constructor with weights.\<close>

lemma KFoldCV_ctor_weights_ok:
  assumes k2: "2 \<le> k0" and nc: "n_cols xs0 = n_cols ys0" and ncw: "n_cols xs0 = n_cols weights0"
    and lenx: "length (columns xs0) < 2 ^ 64" and leny: "length (columns ys0) < 2 ^ 64"
    and lenw: "length (columns weights0) < 2 ^ 64"
    and cond: "k0 = 2 \<or> k0 \<le> n_cols xs0"
  shows "KFoldCV_ctor_weights k0 xs0 ys0 weights0 =
    Inr ((InitKFoldCVMat_sizes (n_cols xs0) (KFoldCV_members k0))
          \<lparr>xs := Stage (unat k0) xs0, ys := Stage (unat k0) ys0,
           weights := Stage (unat k0) weights0\<rparr>)"
proof -
  let ?m = "KFoldCV_members k0 :: ('a, 'b, 'c, 'd) KFoldCV"
  let ?h = "(InitKFoldCVMat_sizes (n_cols xs0) ?m)
          \<lparr>xs := Stage (unat k0) xs0, ys := Stage (unat k0) ys0\<rparr>"
  have kh: "k ?h = k0" by (simp add: KFoldCV_members_def)
  have "InitKFoldCVMat ?h weights0 =
      Inr (InitKFoldCVMat_sizes (n_cols weights0) ?h, Stage (unat k0) weights0)"
    using InitKFoldCVMat_ok [of ?h weights0] k2 lenw cond kh ncw by simp
  moreover have "InitKFoldCVMat_sizes (n_cols weights0) ?h = ?h"
    by (simp add: ncw [symmetric] sizes_update sizes_idem)
  ultimately have i3: "InitKFoldCVMat ?h weights0 = Inr (?h, Stage (unat k0) weights0)"
    by simp
  have awc: "AssertWeightsConsistency xs0 weights0 = Inr ()"
    using ncw by (simp add: AssertWeightsConsistency_def)
  show ?thesis
    by (simp add: KFoldCV_ctor_weights_def KFoldCV_ctor_ok [OF k2 nc lenx leny cond] awc i3)
qed

lemma KFoldCV_ctor_weights_Inr:
  assumes ok: "KFoldCV_ctor_weights k0 xs0 ys0 weights0 = Inr h"
    and lenx: "length (columns xs0) < 2 ^ 64" and leny: "length (columns ys0) < 2 ^ 64"
    and lenw: "length (columns weights0) < 2 ^ 64"
  shows "2 \<le> k0" and "k0 = 2 \<or> k0 \<le> n_cols xs0"
    and "length (columns ys0) = length (columns xs0)"
    and "length (columns weights0) = length (columns xs0)"
    and "h = (InitKFoldCVMat_sizes (n_cols xs0) (KFoldCV_members k0))
          \<lparr>xs := Stage (unat k0) xs0, ys := Stage (unat k0) ys0,
           weights := Stage (unat k0) weights0\<rparr>"
proof -
  from ok obtain h0 :: "('a, 'b, 'c, 'd) KFoldCV" where c0: "KFoldCV_ctor k0 xs0 ys0 = Inr h0"
    by (auto simp: KFoldCV_ctor_weights_def split: sum.splits)
  note f = KFoldCV_ctor_Inr [OF c0 lenx leny]
  show k2: "2 \<le> k0" and cond: "k0 = 2 \<or> k0 \<le> n_cols xs0"
    and eqlen: "length (columns ys0) = length (columns xs0)" by (rule f)+
  have nc: "n_cols xs0 = n_cols ys0" by (simp add: n_cols_def eqlen)
  have ncw: "n_cols xs0 = n_cols weights0"
    using ok c0 by (auto simp: KFoldCV_ctor_weights_def AssertWeightsConsistency_def
        split: if_splits)
  then have "unat (n_cols xs0) = unat (n_cols weights0)" by simp
  then show "length (columns weights0) = length (columns xs0)"
    using lenx lenw by (simp add: n_cols_unat)
  show "h = (InitKFoldCVMat_sizes (n_cols xs0) (KFoldCV_members k0))
          \<lparr>xs := Stage (unat k0) xs0, ys := Stage (unat k0) ys0,
           weights := Stage (unat k0) weights0\<rparr>"
    using KFoldCV_ctor_weights_ok [OF k2 nc ncw lenx leny lenw cond, where ?'d = 'd] ok by simp
qed

lemma Stage_n_rows: "n_rows (Stage kn m) = n_rows m"
  by (simp add: Stage_def Let_def)

text \<open>
  For \<open>k = 2\<close>, or for \<open>k > 2\<close> and \<open>n \<ge> k\<close> columns, each constructor returns an
  object, and each buffer this object stores is the staging of the input buffer, with
  the row count of the input.
\<close>

lemma construction_succeeds:
  assumes "2 \<le> k0" and "k0 = 2 \<or> k0 \<le> n_cols xs0"
    and "n_cols xs0 = n_cols ys0" and "n_cols xs0 = n_cols weights0"
    and "length (columns xs0) < 2 ^ 64" and "length (columns ys0) < 2 ^ 64"
    and "length (columns weights0) < 2 ^ 64"
  shows "(\<exists>h :: ('x, 'y, 'w, 'm) KFoldCV. KFoldCV_ctor k0 xs0 ys0 = Inr h
            \<and> xs h = Stage (unat k0) xs0 \<and> ys h = Stage (unat k0) ys0
            \<and> n_rows (xs h) = n_rows xs0 \<and> n_rows (ys h) = n_rows ys0)
    \<and> (\<exists>h :: ('x, 'y, 'w, 'm) KFoldCV. KFoldCV_ctor_weights k0 xs0 ys0 weights0 = Inr h
            \<and> xs h = Stage (unat k0) xs0 \<and> ys h = Stage (unat k0) ys0
            \<and> weights h = Stage (unat k0) weights0
            \<and> n_rows (xs h) = n_rows xs0 \<and> n_rows (ys h) = n_rows ys0
            \<and> n_rows (weights h) = n_rows weights0)"
  using assms by (simp add: KFoldCV_ctor_ok KFoldCV_ctor_weights_ok Stage_n_rows)

lemma construction_succeeds_example:
  "(\<exists>h :: (nat, nat, nat, nat) KFoldCV.
      KFoldCV_ctor 3 \<lparr>n_rows = 1, columns = [[10], [11], [12], [13], [14]]\<rparr>
        \<lparr>n_rows = 1, columns = [[0], [1], [0], [1], [0]]\<rparr> = Inr h
      \<and> xs h = \<lparr>n_rows = 1, columns = [[10], [11], [12], [13], [14], [10]]\<rparr>
      \<and> ys h = \<lparr>n_rows = 1, columns = [[0], [1], [0], [1], [0], [0]]\<rparr>)"
  using construction_succeeds [of 3 "\<lparr>n_rows = 1, columns = [[10], [11], [12], [13], [14::nat]]\<rparr>"
     "\<lparr>n_rows = 1, columns = [[0], [1], [0], [1], [0::nat]]\<rparr>"
     "\<lparr>n_rows = 1, columns = [[0], [1], [0], [1], [0::nat]]\<rparr>",
     where ?'m = nat]
  by (auto simp: n_cols_def Stage_def)

text \<open>
  With more folds than samples and \<open>k > 2\<close>, outside the precondition \<open>n \<ge> k\<close>, the
  column range of the staging is out of bounds and no object is returned.
\<close>

lemma construction_few_samples:
  "(KFoldCV_ctor 3 \<lparr>n_rows = 1, columns = [[10], [11 :: nat]]\<rparr>
        \<lparr>n_rows = 1, columns = [[0], [1 :: nat]]\<rparr> :: exn + (nat, nat, nat, nat) KFoldCV)
     = Inl ArmaBounds"
  by (simp add: KFoldCV_ctor_def Let_def AssertDataConsistency_def n_cols_def KFoldCV_members_def
      InitKFoldCVMat_few)

text \<open>
  Claim C8. For \<open>k < 2\<close>, whatever the buffers, each constructor raises
  \<^verbatim>\<open>std::invalid_argument\<close> and returns no object; the buffers are not validated and
  not staged before.
\<close>

theorem ctor_invalid_k:
  assumes "k0 < 2"
  shows "(KFoldCV_ctor k0 xs0 ys0 :: exn + ('x, 'y, 'w, 'm) KFoldCV) =
        Inl (invalid_argument ''KFoldCV: k should not be less than 2'')
    \<and> (KFoldCV_ctor_weights k0 xs0 ys0 weights0 :: exn + ('x, 'y, 'w, 'm) KFoldCV) =
        Inl (invalid_argument ''KFoldCV: k should not be less than 2'')"
  using assms by (simp add: KFoldCV_ctor_def KFoldCV_ctor_weights_def Let_def)

theorem ctor_invalid_k_witness:
  "(1::size_t) < 2 \<and>
   (KFoldCV_ctor 1 \<lparr>n_rows = 1, columns = [[10], [11 :: nat]]\<rparr>
        \<lparr>n_rows = 1, columns = [[0 :: nat]]\<rparr> :: exn + (nat, nat, nat, nat) KFoldCV)
     = Inl (invalid_argument ''KFoldCV: k should not be less than 2'')"
  using ctor_invalid_k [of 1 "\<lparr>n_rows = 1, columns = [[10], [11 :: nat]]\<rparr>"
      "\<lparr>n_rows = 1, columns = [[0 :: nat]]\<rparr>" "\<lparr>n_rows = 1, columns = [[0 :: nat]]\<rparr>",
      where ?'m = nat]
  by simp

section \<open>Constructed objects\<close>

lemma Stage_columns:
  assumes "2 \<le> kn"
  shows "columns (Stage kn m) =
    columns m @ take ((length (columns m) div kn) * (kn - 2)) (columns m)"
proof (cases "kn = 2")
  case True
  then show ?thesis by (simp add: Stage_def)
next
  case False
  with assms have "2 < kn" by simp
  then show ?thesis by (simp add: Stage_more)
qed

lemma div_mult_le_self: "(n::nat) div c * (c - d) \<le> n"
proof -
  have "n div c * (c - d) \<le> n div c * c" by (rule mult_le_mono2) simp
  also have "\<dots> \<le> n" by simp
  finally show ?thesis .
qed

lemma Stage_length:
  assumes "2 \<le> kn"
  shows "length (columns (Stage kn m)) =
    length (columns m) + (length (columns m) div kn) * (kn - 2)"
  using div_mult_le_self [of "length (columns m)" kn 2]
  by (simp add: Stage_columns [OF assms] min_absorb2)

lemma sizes_inv_sizes:
  assumes "2 \<le> k h" and "n < 2 ^ 64"
  shows "sizes_inv n (InitKFoldCVMat_sizes (word_of_nat n) h)"
proof -
  have n: "unat (word_of_nat n :: size_t) = n" using assms(2) by (simp add: unat_of_nat)
  show ?thesis
    using sizes_unat [OF assms(1), of "word_of_nat n"] unat_k_ge_2 [OF assms(1)] assms(2)
    by (simp add: sizes_inv_def n)
qed

lemma sizes_inv_update [simp]:
  "sizes_inv n (h\<lparr>xs := a\<rparr>) = sizes_inv n h"
  "sizes_inv n (h\<lparr>ys := b\<rparr>) = sizes_inv n h"
  "sizes_inv n (h\<lparr>weights := c\<rparr>) = sizes_inv n h"
  "sizes_inv n (h\<lparr>modelPtr := d\<rparr>) = sizes_inv n h"
  by (simp_all add: sizes_inv_def)

text \<open>What a constructed object is.\<close>

lemma constructed_facts:
  assumes c: "constructed k0 xs0 ys0 weights0 h"
  shows "k h = k0" and "2 \<le> k0" and "k0 = 2 \<or> k0 \<le> n_cols xs0"
    and "length (columns ys0) = length (columns xs0)"
    and "sizes_inv (length (columns xs0)) h"
    and "xs h = Stage (unat k0) xs0" and "ys h = Stage (unat k0) ys0"
    and "modelPtr h = None"
    and "KFoldCV_ctor k0 xs0 ys0 = Inr h \<Longrightarrow> weights h = empty_Mat"
    and "KFoldCV_ctor_weights k0 xs0 ys0 weights0 = Inr h \<Longrightarrow>
           weights h = Stage (unat k0) weights0 \<and>
           length (columns weights0) = length (columns xs0)"
proof -
  let ?m = "KFoldCV_members k0 :: ('a, 'b, 'c, 'd) KFoldCV"
  let ?g = "InitKFoldCVMat_sizes (n_cols xs0) ?m"
  from c have lenx: "length (columns xs0) < 2 ^ 64" and leny: "length (columns ys0) < 2 ^ 64"
    and lenw: "length (columns weights0) < 2 ^ 64"
    and d: "KFoldCV_ctor k0 xs0 ys0 = Inr h \<or> KFoldCV_ctor_weights k0 xs0 ys0 weights0 = Inr h"
    by (simp_all add: constructed_def)
  have km: "k ?m = k0" "modelPtr ?m = None" "weights ?m = empty_Mat"
    by (simp_all add: KFoldCV_members_def)
  have shape: "2 \<le> k0 \<and> (k0 = 2 \<or> k0 \<le> n_cols xs0)
      \<and> length (columns ys0) = length (columns xs0)
      \<and> (\<exists>w. h = ?g\<lparr>xs := Stage (unat k0) xs0, ys := Stage (unat k0) ys0, weights := w\<rparr>)"
  proof (rule disjE [OF d])
    assume ok: "KFoldCV_ctor k0 xs0 ys0 = Inr h"
    note f = KFoldCV_ctor_Inr [OF ok lenx leny]
    have "h = h\<lparr>weights := weights h\<rparr>" by simp
    then have "\<exists>w. h = ?g\<lparr>xs := Stage (unat k0) xs0, ys := Stage (unat k0) ys0, weights := w\<rparr>"
      using f(4) by (metis (no_types))
    with f(1-3) show ?thesis by simp
  next
    assume ok: "KFoldCV_ctor_weights k0 xs0 ys0 weights0 = Inr h"
    note f = KFoldCV_ctor_weights_Inr [OF ok lenx leny lenw]
    from f(5) have "\<exists>w. h = ?g\<lparr>xs := Stage (unat k0) xs0, ys := Stage (unat k0) ys0, weights := w\<rparr>"
      by blast
    with f(1-3) show ?thesis by simp
  qed
  then obtain w where h: "h = ?g\<lparr>xs := Stage (unat k0) xs0, ys := Stage (unat k0) ys0, weights := w\<rparr>"
    by blast
  from shape show k2: "2 \<le> k0" and "k0 = 2 \<or> k0 \<le> n_cols xs0"
    and "length (columns ys0) = length (columns xs0)" by simp_all
  show "k h = k0" by (simp add: h km)
  have "sizes_inv (length (columns xs0)) ?g"
    unfolding n_cols_def using k2 lenx km by (intro sizes_inv_sizes) simp_all
  then show "sizes_inv (length (columns xs0)) h" by (simp add: h)
  show "xs h = Stage (unat k0) xs0" "ys h = Stage (unat k0) ys0" by (simp_all add: h)
  show "modelPtr h = None" by (simp add: h km)
  show "weights h = empty_Mat" if ok: "KFoldCV_ctor k0 xs0 ys0 = Inr h"
    using KFoldCV_ctor_Inr(4) [OF ok lenx leny] by (simp add: km)
  show "weights h = Stage (unat k0) weights0 \<and>
           length (columns weights0) = length (columns xs0)"
    if ok: "KFoldCV_ctor_weights k0 xs0 ys0 weights0 = Inr h"
    using KFoldCV_ctor_weights_Inr(4,5) [OF ok lenx leny lenw] by simp
qed

section \<open>Windows\<close>

text \<open>The offsets and lengths of the windows, in unbounded arithmetic.\<close>

lemma unat_mult_small:
  fixes a c :: size_t
  assumes "unat a * unat c \<le> n" and "n < 2 ^ 64"
  shows "unat (a * c) = unat a * unat c"
proof -
  have "unat a * unat c < 2 ^ LENGTH(64)" using assms by simp
  then show ?thesis by (simp add: unat_mult_lem [THEN iffD1])
qed

lemma unat_add_small:
  fixes a c :: size_t
  assumes "unat a + unat c \<le> n" and "n < 2 ^ 64"
  shows "unat (a + c) = unat a + unat c"
proof -
  have "unat a + unat c < 2 ^ LENGTH(64)" using assms by simp
  then show ?thesis by (simp add: unat_add_lem [THEN iffD1])
qed

lemma bin_mult_le:
  assumes "j \<le> c"
  shows "(n::nat) div c * j \<le> n"
proof -
  have "n div c * j \<le> n div c * c" using assms by (rule mult_le_mono2)
  also have "\<dots> \<le> n" by simp
  finally show ?thesis .
qed

lemma bin_pred_split:
  assumes "2 \<le> (c::nat)"
  shows "b * (c - 1) = b * (c - 2) + b"
proof -
  from assms have "c - 1 = Suc (c - 2)" by arith
  then show ?thesis by (simp only: mult_Suc_right add.commute)
qed

lemma window_offsets:
  assumes inv: "sizes_inv n h" and i: "i < k h"
  shows "unat (binSize h * i) = (n div unat (k h)) * unat i"
    and "unat (TrainingSubsetSize h i) =
          (if unat i = unat (k h) - 1 then n - n div unat (k h)
           else (n div unat (k h)) * (unat (k h) - 1))"
    and "unat (ValidationSubsetFirstCol h i) =
          (if unat i = 0 then (n div unat (k h)) * (unat (k h) - 1)
           else (n div unat (k h)) * (unat i - 1))"
    and "unat (ValidationSubsetSize h i) =
          (if unat i = 0 then n - (n div unat (k h)) * (unat (k h) - 1) else n div unat (k h))"
proof -
  let ?K = "unat (k h)"
  let ?b = "n div ?K"
  from inv have K2: "2 \<le> ?K" and n: "n < 2 ^ 64" and b: "unat (binSize h) = ?b"
    and t: "unat (trainingSubsetSize h) = ?b * (?K - 1)"
    and l: "unat (lastBinSize h) = n - ?b * (?K - 1)"
    by (simp_all add: sizes_inv_def)
  have iK: "unat i < ?K" using i by (simp add: word_less_nat_alt)
  have k2: "2 \<le> k h" using K2 by (simp add: word_le_nat_alt)
  have i0: "i = 0 \<longleftrightarrow> unat i = 0" by (simp add: unat_eq_zero)
  have "unat (k h - 1) = ?K - 1" using k2 by (rule unat_k_minus_1)
  then have ik: "i = k h - 1 \<longleftrightarrow> unat i = ?K - 1" by (simp add: word_unat_eq_iff)
  show "unat (binSize h * i) = ?b * unat i"
  proof -
    have "unat (binSize h) * unat i \<le> n" unfolding b using iK by (intro bin_mult_le) simp
    then show ?thesis using n b by (simp add: unat_mult_small)
  qed
  show "unat (TrainingSubsetSize h i) = (if unat i = ?K - 1 then n - ?b else ?b * (?K - 1))"
  proof (cases "unat i = ?K - 1")
    case True
    have k2': "unat (k h - 2) = ?K - 2" using k2 by (rule unat_k_minus_2)
    have "unat (k h - 2) * unat (binSize h) \<le> n"
      unfolding k2' b using bin_mult_le [of "?K - 2" ?K n] by (simp add: mult.commute)
    then have m: "unat ((k h - 2) * binSize h) = (?K - 2) * ?b"
      using n by (simp add: unat_mult_small k2' b)
    have le: "?b * (?K - 1) \<le> n" by (rule bin_mult_le) simp
    have sp: "?b * (?K - 1) = ?b * (?K - 2) + ?b" using K2 by (rule bin_pred_split)
    have s: "(n - ?b * (?K - 1)) + (?K - 2) * ?b = n - ?b" using le sp by (simp add: mult.commute)
    then have "unat (lastBinSize h) + unat ((k h - 2) * binSize h) \<le> n" by (simp add: l m)
    then have "unat (lastBinSize h + (k h - 2) * binSize h) =
        unat (lastBinSize h) + unat ((k h - 2) * binSize h)"
      using n by (rule unat_add_small)
    also have "\<dots> = n - ?b" using s by (simp only: l m)
    finally have "unat (lastBinSize h + (k h - 2) * binSize h) = n - ?b" .
    with True show ?thesis by (simp add: TrainingSubsetSize_def ik)
  next
    case False
    then show ?thesis by (simp add: TrainingSubsetSize_def ik t)
  qed
  show "unat (ValidationSubsetFirstCol h i) =
          (if unat i = 0 then ?b * (?K - 1) else ?b * (unat i - 1))"
  proof (cases "unat i = 0")
    case True
    then show ?thesis by (simp add: ValidationSubsetFirstCol_def i0 t)
  next
    case False
    then have "i \<noteq> 0" by (simp add: i0)
    then have p: "unat (i - 1) = unat i - 1" by (rule unat_minus_one)
    have "unat (binSize h) * unat (i - 1) \<le> n"
      unfolding b p using iK by (intro bin_mult_le) simp
    then have "unat (binSize h * (i - 1)) = ?b * (unat i - 1)"
      using n by (simp add: unat_mult_small b p)
    with False show ?thesis by (simp add: ValidationSubsetFirstCol_def i0)
  qed
  show "unat (ValidationSubsetSize h i) = (if unat i = 0 then n - ?b * (?K - 1) else ?b)"
    by (simp add: ValidationSubsetSize_def i0 l b)
qed

text \<open>Every window of a fold lies inside a staged buffer.\<close>

lemma windows_in_range:
  assumes inv: "sizes_inv n h" and i: "i < k h"
  shows "unat (binSize h * i) + unat (TrainingSubsetSize h i)
           \<le> n + (n div unat (k h)) * (unat (k h) - 2)"
    and "unat (ValidationSubsetFirstCol h i) + unat (ValidationSubsetSize h i) \<le> n"
proof -
  let ?K = "unat (k h)"
  let ?b = "n div ?K"
  note w = window_offsets [OF inv i]
  from inv have K2: "2 \<le> ?K" by (simp add: sizes_inv_def)
  have iK: "unat i < ?K" using i by (simp add: word_less_nat_alt)
  have le: "?b * (?K - 1) \<le> n" by (rule bin_mult_le) simp
  have sp: "?b * (?K - 1) = ?b * (?K - 2) + ?b" using K2 by (rule bin_pred_split)
  show "unat (binSize h * i) + unat (TrainingSubsetSize h i) \<le> n + ?b * (?K - 2)"
  proof (cases "unat i = ?K - 1")
    case True
    then show ?thesis using le sp by (simp add: w)
  next
    case False
    with iK have "unat i \<le> ?K - 2" by arith
    then have a: "?b * unat i \<le> ?b * (?K - 2)" by (rule mult_le_mono2)
    have "unat (TrainingSubsetSize h i) = ?b * (?K - 1)" using False by (simp add: w(2))
    moreover have "unat (binSize h * i) = ?b * unat i" by (rule w(1))
    ultimately show ?thesis using a le by linarith
  qed
  show "unat (ValidationSubsetFirstCol h i) + unat (ValidationSubsetSize h i) \<le> n"
  proof (cases "unat i = 0")
    case True
    then show ?thesis using le by (simp add: w)
  next
    case False
    then have "unat i = Suc (unat i - 1)" by simp
    then have "?b * (unat i - 1) + ?b = ?b * unat i"
      by (metis mult_Suc_right add.commute)
    moreover have "?b * unat i \<le> n" using iK by (intro bin_mult_le) simp
    ultimately show ?thesis using False by (simp add: w)
  qed
qed

lemma ex_ctor: "KFoldCV_ctor 3 ex_xs ex_ys = Inr ex_h"
  by (simp add: KFoldCV_ctor_def Let_def KFoldCV_members_def AssertDataConsistency_def
      InitKFoldCVMat_def InitKFoldCVMat_sizes_def n_cols_def n_elem_def cols_def join_rows_def
      ex_xs_def ex_ys_def ex_h_def)

lemma ex_constructed: "constructed 3 ex_xs ex_ys empty_Mat ex_h"
  by (simp add: constructed_def ex_ctor) (simp add: ex_xs_def ex_ys_def empty_Mat_def)


lemma colptr_window_Some:
  "unat first_col + unat count \<le> length (columns m) \<Longrightarrow>
   colptr_window m first_col count =
     Some (m\<lparr>columns := take (unat count) (drop (unat first_col) (columns m))\<rparr>)"
  by (simp add: colptr_window_def)

text \<open>The lengths of the staged buffers of a constructed object.\<close>

lemma constructed_lengths:
  assumes c: "constructed k0 xs0 ys0 weights0 h"
  shows "length (columns (xs h)) =
      length (columns xs0) + (length (columns xs0) div unat (k h)) * (unat (k h) - 2)"
    and "length (columns (ys h)) =
      length (columns xs0) + (length (columns xs0) div unat (k h)) * (unat (k h) - 2)"
    and "KFoldCV_ctor_weights k0 xs0 ys0 weights0 = Inr h \<Longrightarrow> length (columns (weights h)) =
      length (columns xs0) + (length (columns xs0) div unat (k h)) * (unat (k h) - 2)"
proof -
  note f = constructed_facts [OF c]
  have K2: "2 \<le> unat k0" using f(2) by (rule unat_k_ge_2)
  show "length (columns (xs h)) =
      length (columns xs0) + (length (columns xs0) div unat (k h)) * (unat (k h) - 2)"
    by (simp add: f(1) f(6) Stage_length [OF K2])
  show "length (columns (ys h)) =
      length (columns xs0) + (length (columns xs0) div unat (k h)) * (unat (k h) - 2)"
    by (simp add: f(1) f(7) f(4) Stage_length [OF K2])
  show "length (columns (weights h)) =
      length (columns xs0) + (length (columns xs0) div unat (k h)) * (unat (k h) - 2)"
    if "KFoldCV_ctor_weights k0 xs0 ys0 weights0 = Inr h"
    using f(10) [OF that] by (simp add: f(1) Stage_length [OF K2])
qed



text \<open>
  Claim C4. In a constructed object and for a fold \<open>i < k\<close>, the validation window
  starts at column \<open>trainingSubsetSize\<close> for \<open>i = 0\<close> and at column \<open>binSize * (i - 1)\<close>
  otherwise (no wrap-around), and has \<open>lastBinSize\<close> columns for \<open>i = 0\<close> and \<open>binSize\<close>
  columns otherwise; it lies inside the staged buffer, so \<^verbatim>\<open>GetValidationSubset\<close>
  returns exactly these columns of the features and of the labels.
\<close>

theorem validation_window:
  assumes "constructed k0 xs0 ys0 weights0 h" and "i < k0"
  shows "unat (ValidationSubsetFirstCol h i) =
           (if i = 0 then unat (trainingSubsetSize h) else unat (binSize h) * (unat i - 1))
    \<and> unat (ValidationSubsetFirstCol h i)
          + (if i = 0 then unat (lastBinSize h) else unat (binSize h)) \<le> length (columns (xs h))
    \<and> GetValidationSubset h (xs h) i =
        Some ((xs h)\<lparr>columns :=
          take (if i = 0 then unat (lastBinSize h) else unat (binSize h))
            (drop (unat (ValidationSubsetFirstCol h i)) (columns (xs h)))\<rparr>)
    \<and> GetValidationSubset h (ys h) i =
        Some ((ys h)\<lparr>columns :=
          take (if i = 0 then unat (lastBinSize h) else unat (binSize h))
            (drop (unat (ValidationSubsetFirstCol h i)) (columns (ys h)))\<rparr>)"
proof -
  let ?n = "length (columns xs0)"
  note f = constructed_facts [OF assms(1)]
  note len = constructed_lengths [OF assms(1)]
  have inv: "sizes_inv ?n h" by (rule f(5))
  have i: "i < k h" using assms(2) by (simp add: f(1))
  have i0: "i = 0 \<longleftrightarrow> unat i = 0" by (simp add: unat_eq_zero)
  from inv have b: "unat (binSize h) = ?n div unat (k h)"
    and t: "unat (trainingSubsetSize h) = (?n div unat (k h)) * (unat (k h) - 1)"
    by (simp_all add: sizes_inv_def)
  note w = window_offsets [OF inv i]
  have size: "unat (ValidationSubsetSize h i) =
      (if i = 0 then unat (lastBinSize h) else unat (binSize h))"
    by (simp add: ValidationSubsetSize_def)
  have start: "unat (ValidationSubsetFirstCol h i) =
           (if i = 0 then unat (trainingSubsetSize h) else unat (binSize h) * (unat i - 1))"
    by (simp add: w(3) i0 b t)
  have "unat (ValidationSubsetFirstCol h i) + unat (ValidationSubsetSize h i) \<le> ?n"
    by (rule windows_in_range(2) [OF inv i])
  then have rx: "unat (ValidationSubsetFirstCol h i) + unat (ValidationSubsetSize h i)
      \<le> length (columns (xs h))"
    and ry: "unat (ValidationSubsetFirstCol h i) + unat (ValidationSubsetSize h i)
      \<le> length (columns (ys h))"
    by (simp_all add: len)
  have gx: "GetValidationSubset h (xs h) i =
        Some ((xs h)\<lparr>columns := take (unat (ValidationSubsetSize h i))
            (drop (unat (ValidationSubsetFirstCol h i)) (columns (xs h)))\<rparr>)"
    unfolding GetValidationSubset_def using rx by (rule colptr_window_Some)
  have gy: "GetValidationSubset h (ys h) i =
        Some ((ys h)\<lparr>columns := take (unat (ValidationSubsetSize h i))
            (drop (unat (ValidationSubsetFirstCol h i)) (columns (ys h)))\<rparr>)"
    unfolding GetValidationSubset_def using ry by (rule colptr_window_Some)
  show ?thesis
  proof (intro conjI)
    show "unat (ValidationSubsetFirstCol h i) =
           (if i = 0 then unat (trainingSubsetSize h) else unat (binSize h) * (unat i - 1))"
      by (rule start)
    show "unat (ValidationSubsetFirstCol h i)
          + (if i = 0 then unat (lastBinSize h) else unat (binSize h)) \<le> length (columns (xs h))"
      using rx unfolding size .
    show "GetValidationSubset h (xs h) i =
        Some ((xs h)\<lparr>columns :=
          take (if i = 0 then unat (lastBinSize h) else unat (binSize h))
            (drop (unat (ValidationSubsetFirstCol h i)) (columns (xs h)))\<rparr>)"
      using gx unfolding size .
    show "GetValidationSubset h (ys h) i =
        Some ((ys h)\<lparr>columns :=
          take (if i = 0 then unat (lastBinSize h) else unat (binSize h))
            (drop (unat (ValidationSubsetFirstCol h i)) (columns (ys h)))\<rparr>)"
      using gy unfolding size .
  qed
qed

theorem validation_window_witness:
  "constructed 3 ex_xs ex_ys empty_Mat ex_h \<and> (0::size_t) < 3 \<and> (2::size_t) < 3
   \<and> GetValidationSubset ex_h (xs ex_h) 0 =
        Some \<lparr>n_rows = 1, columns = [[16], [17], [18], [19]]\<rparr>
   \<and> GetValidationSubset ex_h (xs ex_h) 2 =
        Some \<lparr>n_rows = 1, columns = [[13], [14], [15]]\<rparr>"
proof -
  have c: "constructed 3 ex_xs ex_ys empty_Mat ex_h" by (rule ex_constructed)
  have s: "unat (ValidationSubsetFirstCol ex_h 2) = 3"
    by (simp add: ValidationSubsetFirstCol_def ex_h_def)
  show ?thesis
    using validation_window [OF c, of 0] validation_window [OF c, of 2] c
    by (simp add: s) (simp add: ex_h_def)
qed

text \<open>
  Claim C5. In a constructed object and for a fold \<open>i < k\<close>, the training window
  starts at column \<open>binSize * i\<close> (no wrap-around) and has \<open>trainingSubsetSize\<close> columns,
  except for the last fold \<open>i = k - 1\<close>, where it has \<open>lastBinSize + (k - 2) * binSize\<close>
  columns; it lies inside the staged buffer, so \<^verbatim>\<open>GetTrainingSubset\<close> returns exactly
  these columns of the features, of the labels and, when there are weights, of the
  weights.
\<close>

theorem training_window:
  assumes "constructed k0 xs0 ys0 weights0 h" and "i < k0"
  shows "unat (binSize h * i) = unat (binSize h) * unat i
    \<and> unat (TrainingSubsetSize h i) =
         (if i = k0 - 1 then unat (lastBinSize h) + (unat k0 - 2) * unat (binSize h)
          else unat (trainingSubsetSize h))
    \<and> unat (binSize h) * unat i + unat (TrainingSubsetSize h i) \<le> length (columns (xs h))
    \<and> GetTrainingSubset h (xs h) i =
        Some ((xs h)\<lparr>columns := take (unat (TrainingSubsetSize h i))
            (drop (unat (binSize h) * unat i) (columns (xs h)))\<rparr>)
    \<and> GetTrainingSubset h (ys h) i =
        Some ((ys h)\<lparr>columns := take (unat (TrainingSubsetSize h i))
            (drop (unat (binSize h) * unat i) (columns (ys h)))\<rparr>)
    \<and> (KFoldCV_ctor_weights k0 xs0 ys0 weights0 = Inr h \<longrightarrow>
        GetTrainingSubset h (weights h) i =
          Some ((weights h)\<lparr>columns := take (unat (TrainingSubsetSize h i))
            (drop (unat (binSize h) * unat i) (columns (weights h)))\<rparr>))"
proof -
  let ?n = "length (columns xs0)"
  let ?K = "unat (k h)"
  let ?b = "?n div ?K"
  note f = constructed_facts [OF assms(1)]
  note len = constructed_lengths [OF assms(1)]
  have inv: "sizes_inv ?n h" by (rule f(5))
  have i: "i < k h" using assms(2) by (simp add: f(1))
  from inv have K2: "2 \<le> ?K" and b: "unat (binSize h) = ?b"
    and t: "unat (trainingSubsetSize h) = ?b * (?K - 1)"
    and l: "unat (lastBinSize h) = ?n - ?b * (?K - 1)"
    by (simp_all add: sizes_inv_def)
  note w = window_offsets [OF inv i]
  have "unat (k h - 1) = ?K - 1" using f(2) by (simp add: f(1) unat_k_minus_1)
  then have ik: "i = k h - 1 \<longleftrightarrow> unat i = ?K - 1" by (simp add: word_unat_eq_iff)
  have le: "?b * (?K - 1) \<le> ?n" by (rule bin_mult_le) simp
  have sp: "?b * (?K - 1) = ?b * (?K - 2) + ?b" using K2 by (rule bin_pred_split)
  have last: "unat (lastBinSize h) + (?K - 2) * unat (binSize h) = ?n - ?b"
    unfolding l b using le sp by (simp add: mult.commute)
  have start: "unat (binSize h * i) = unat (binSize h) * unat i"
    by (simp add: w(1) b)
  have size: "unat (TrainingSubsetSize h i) =
         (if i = k0 - 1 then unat (lastBinSize h) + (unat k0 - 2) * unat (binSize h)
          else unat (trainingSubsetSize h))"
  proof (cases "i = k h - 1")
    case True
    from ik True have ui: "unat i = ?K - 1" by (rule iffD1)
    have "unat (TrainingSubsetSize h i) = ?n - ?b" unfolding w(2) ui by simp
    then have "unat (TrainingSubsetSize h i) =
        unat (lastBinSize h) + (?K - 2) * unat (binSize h)" by (simp only: last)
    moreover have "i = k0 - 1" using True f(1) by simp
    ultimately show ?thesis by (simp add: f(1))
  next
    case False
    with ik have ui: "unat i \<noteq> ?K - 1" by simp
    have "unat (TrainingSubsetSize h i) = ?b * (?K - 1)" unfolding w(2) using ui by simp
    then have "unat (TrainingSubsetSize h i) = unat (trainingSubsetSize h)" by (simp only: t)
    moreover have "i \<noteq> k0 - 1" using False f(1) by simp
    ultimately show ?thesis by simp
  qed
  have r: "unat (binSize h * i) + unat (TrainingSubsetSize h i) \<le> ?n + ?b * (?K - 2)"
    by (rule windows_in_range(1) [OF inv i])
  have rx: "unat (binSize h * i) + unat (TrainingSubsetSize h i) \<le> length (columns (xs h))"
    and ry: "unat (binSize h * i) + unat (TrainingSubsetSize h i) \<le> length (columns (ys h))"
    using r by (simp_all only: len)
  have gx: "GetTrainingSubset h (xs h) i =
        Some ((xs h)\<lparr>columns := take (unat (TrainingSubsetSize h i))
            (drop (unat (binSize h * i)) (columns (xs h)))\<rparr>)"
    unfolding GetTrainingSubset_def using rx by (rule colptr_window_Some)
  have gy: "GetTrainingSubset h (ys h) i =
        Some ((ys h)\<lparr>columns := take (unat (TrainingSubsetSize h i))
            (drop (unat (binSize h * i)) (columns (ys h)))\<rparr>)"
    unfolding GetTrainingSubset_def using ry by (rule colptr_window_Some)
  have gw: "GetTrainingSubset h (weights h) i =
        Some ((weights h)\<lparr>columns := take (unat (TrainingSubsetSize h i))
            (drop (unat (binSize h * i)) (columns (weights h)))\<rparr>)"
    if ok: "KFoldCV_ctor_weights k0 xs0 ys0 weights0 = Inr h"
  proof -
    have "unat (binSize h * i) + unat (TrainingSubsetSize h i) \<le> length (columns (weights h))"
      using r by (simp only: len(3) [OF ok])
    then show ?thesis unfolding GetTrainingSubset_def by (rule colptr_window_Some)
  qed
  show ?thesis
  proof (intro conjI impI)
    show "unat (binSize h * i) = unat (binSize h) * unat i" by (rule start)
    show "unat (TrainingSubsetSize h i) =
         (if i = k0 - 1 then unat (lastBinSize h) + (unat k0 - 2) * unat (binSize h)
          else unat (trainingSubsetSize h))" by (rule size)
    show "unat (binSize h) * unat i + unat (TrainingSubsetSize h i) \<le> length (columns (xs h))"
      using rx unfolding start .
    show "GetTrainingSubset h (xs h) i =
        Some ((xs h)\<lparr>columns := take (unat (TrainingSubsetSize h i))
            (drop (unat (binSize h) * unat i) (columns (xs h)))\<rparr>)"
      using gx unfolding start .
    show "GetTrainingSubset h (ys h) i =
        Some ((ys h)\<lparr>columns := take (unat (TrainingSubsetSize h i))
            (drop (unat (binSize h) * unat i) (columns (ys h)))\<rparr>)"
      using gy unfolding start .
    show "GetTrainingSubset h (weights h) i =
          Some ((weights h)\<lparr>columns := take (unat (TrainingSubsetSize h i))
            (drop (unat (binSize h) * unat i) (columns (weights h)))\<rparr>)"
      if "KFoldCV_ctor_weights k0 xs0 ys0 weights0 = Inr h"
      using gw [OF that] unfolding start .
  qed
qed

theorem training_window_witness:
  "constructed 3 ex_xs ex_ys empty_Mat ex_h \<and> (1::size_t) < 3 \<and> (2::size_t) < 3
   \<and> GetTrainingSubset ex_h (xs ex_h) 1 =
        Some \<lparr>n_rows = 1, columns = [[13], [14], [15], [16], [17], [18]]\<rparr>
   \<and> GetTrainingSubset ex_h (xs ex_h) 2 =
        Some \<lparr>n_rows = 1, columns = [[16], [17], [18], [19], [10], [11], [12]]\<rparr>"
proof -
  have c: "constructed 3 ex_xs ex_ys empty_Mat ex_h" by (rule ex_constructed)
  have s: "unat (TrainingSubsetSize ex_h 1) = 6" "unat (TrainingSubsetSize ex_h 2) = 7"
    "unat (binSize ex_h) = 3"
    by (simp_all add: TrainingSubsetSize_def ex_h_def)
  show ?thesis
    using training_window [OF c, of 1] training_window [OF c, of 2] c
    by (simp add: s) (simp add: ex_h_def)
qed

section \<open>The folds as a partition of the samples\<close>

text \<open>
  The two windows of a fold together: all \<open>n\<close> columns in the first and in the last
  fold, but only \<open>k * binSize\<close> columns in the folds between.
\<close>

lemma window_lengths_sum:
  assumes inv: "sizes_inv n h" and i: "i < k h"
  shows "unat (TrainingSubsetSize h i) + unat (ValidationSubsetSize h i) =
    (if i = 0 \<or> i = k h - 1 then n else (n div unat (k h)) * unat (k h))"
proof -
  let ?K = "unat (k h)"
  let ?b = "n div ?K"
  note w = window_offsets [OF inv i]
  from inv have K2: "2 \<le> ?K" by (simp add: sizes_inv_def)
  have k2: "2 \<le> k h" using K2 by (simp add: word_le_nat_alt)
  have i0: "i = 0 \<longleftrightarrow> unat i = 0" by (simp add: unat_eq_zero)
  have "unat (k h - 1) = ?K - 1" using k2 by (rule unat_k_minus_1)
  then have ik: "i = k h - 1 \<longleftrightarrow> unat i = ?K - 1" by (simp add: word_unat_eq_iff)
  have le: "?b * (?K - 1) \<le> n" by (rule bin_mult_le) simp
  have bn: "?b \<le> n" by simp
  have sp: "?b * ?K = ?b * (?K - 1) + ?b" using K2 by (cases ?K) simp_all
  consider (first) "unat i = 0" | (last) "unat i = ?K - 1" | (between) "unat i \<noteq> 0" "unat i \<noteq> ?K - 1"
    by blast
  then show ?thesis
  proof cases
    case first
    with K2 have "unat i \<noteq> ?K - 1" by simp
    with first show ?thesis unfolding w i0 ik using le by simp
  next
    case last
    with K2 have "unat i \<noteq> 0" by simp
    with last show ?thesis unfolding w i0 ik using bn by simp
  next
    case between
    then show ?thesis unfolding w i0 ik using sp by simp
  qed
qed

text \<open>
  Claim C6. The code at the second of three folds over ten samples: the training
  window holds the six columns 3 to 8 and the validation window the three columns 0
  to 2; together nine of the ten samples, and column 9 is in neither window.
\<close>

theorem middle_fold_drops_samples:
  "constructed 3 ex_xs ex_ys empty_Mat ex_h
   \<and> length (columns ex_xs) = 10
   \<and> GetTrainingSubset ex_h (xs ex_h) 1 =
        Some \<lparr>n_rows = 1, columns = [[13], [14], [15], [16], [17], [18]]\<rparr>
   \<and> GetValidationSubset ex_h (xs ex_h) 1 =
        Some \<lparr>n_rows = 1, columns = [[10], [11], [12]]\<rparr>
   \<and> unat (TrainingSubsetSize ex_h 1) + unat (ValidationSubsetSize ex_h 1) = 9"
proof -
  have "unat (TrainingSubsetSize ex_h 1) = 6" "unat (ValidationSubsetSize ex_h 1) = 3"
    "unat (binSize ex_h * 1) = 3" "unat (ValidationSubsetFirstCol ex_h 1) = 0"
    by (simp_all add: TrainingSubsetSize_def ValidationSubsetSize_def
        ValidationSubsetFirstCol_def ex_h_def)
  then show ?thesis
    using ex_constructed
    by (simp add: GetTrainingSubset_def GetValidationSubset_def colptr_window_def)
       (simp add: ex_h_def ex_xs_def)
qed

text \<open>The validation window of a fold as an interval of original columns.\<close>

lemma validation_columns_nat:
  assumes inv: "sizes_inv n h" and i: "i < k h"
  shows "original_column n ` validation_columns h i =
    (if unat i = 0 then {(n div unat (k h)) * (unat (k h) - 1) ..< n}
     else {(n div unat (k h)) * (unat i - 1) ..< (n div unat (k h)) * unat i})"
proof -
  let ?K = "unat (k h)"
  let ?b = "n div ?K"
  note w = window_offsets [OF inv i]
  note r = windows_in_range(2) [OF inv i]
  have le: "?b * (?K - 1) \<le> n" by (rule bin_mult_le) simp
  have "\<And>j. j \<in> validation_columns h i \<Longrightarrow> original_column n j = j"
    using r by (cases "unat (ValidationSubsetSize h i) = 0")
      (auto simp: validation_columns_def original_column_def)
  then have "original_column n ` validation_columns h i = validation_columns h i"
    by simp
  also have "\<dots> = (if unat i = 0 then {?b * (?K - 1) ..< n}
     else {?b * (unat i - 1) ..< ?b * unat i})"
  proof (cases "unat i = 0")
    case True
    then show ?thesis unfolding validation_columns_def w using le by simp
  next
    case False
    then have "unat i = Suc (unat i - 1)" by simp
    then have "?b * (unat i - 1) + ?b = ?b * unat i"
      by (metis mult_Suc_right add.commute)
    with False show ?thesis unfolding validation_columns_def w by simp
  qed
  finally show ?thesis .
qed

text \<open>Over the naturals: each column lies in the interval of exactly one fold.\<close>

lemma fold_of_column:
  fixes n K c :: nat
  assumes K2: "2 \<le> K" and c: "c < n"
  defines "b \<equiv> n div K"
  defines "win \<equiv> \<lambda>m. if m = 0 then {b * (K - 1) ..< n} else {b * (m - 1) ..< b * m}"
  shows "\<exists>m < K. c \<in> win m \<and> (\<forall>m' < K. c \<in> win m' \<longrightarrow> m' = m)"
proof (cases "b * (K - 1) \<le> c")
  case True
  have "m' = 0" if "m' < K" "c \<in> win m'" for m'
  proof (rule ccontr)
    assume "m' \<noteq> 0"
    with that(2) have "c < b * m'" by (simp add: win_def)
    also have "b * m' \<le> b * (K - 1)" using that(1) by (intro mult_le_mono2) simp
    finally show False using True by simp
  qed
  moreover have "c \<in> win 0" using True c by (simp add: win_def)
  ultimately show ?thesis using K2 by (intro exI [of _ 0]) auto
next
  case False
  then have lt: "c < b * (K - 1)" by simp
  then have b0: "0 < b" by (cases b) simp_all
  let ?m = "Suc (c div b)"
  have "c div b < K - 1" using lt b0 by (simp add: less_mult_imp_div_less mult.commute)
  then have mK: "?m < K" by simp
  have lo: "b * (c div b) \<le> c" by simp
  have hi: "c < b * Suc (c div b)" using b0 by (simp add: dividend_less_times_div)
  have "c \<in> win ?m" using lo hi by (simp add: win_def)
  moreover have "m' = ?m" if "m' < K" "c \<in> win m'" for m'
  proof (cases "m' = 0")
    case True
    with that(2) lt show ?thesis by (simp add: win_def)
  next
    case False
    with that(2) have l: "b * (m' - 1) \<le> c" and u: "c < b * m'" by (simp_all add: win_def)
    from l have "m' - 1 \<le> c div b" using b0 by (simp add: less_eq_div_iff_mult_less_eq mult.commute)
    moreover from u have "c div b < m'" using b0 by (simp add: div_less_iff_less_mult mult.commute)
    ultimately show ?thesis using False by simp
  qed
  ultimately show ?thesis using mK by blast
qed

text \<open>
  Claim C7. In a constructed object over \<open>n\<close> samples, every original column
  \<open>c < n\<close> is held by the validation window of exactly one fold \<open>i < k\<close>: the \<open>k\<close>
  validation windows partition the samples.
\<close>

theorem validation_partition:
  assumes "constructed k0 xs0 ys0 weights0 h" and "c < length (columns xs0)"
  shows "\<exists>!i. i < k0 \<and> c \<in> original_column (length (columns xs0)) ` validation_columns h i"
proof -
  let ?n = "length (columns xs0)"
  let ?K = "unat (k h)"
  let ?win = "\<lambda>m. if m = 0 then {(?n div ?K) * (?K - 1) ..< ?n}
     else {(?n div ?K) * (m - 1) ..< (?n div ?K) * m}"
  note f = constructed_facts [OF assms(1)]
  have inv: "sizes_inv ?n h" by (rule f(5))
  then have K2: "2 \<le> ?K" by (simp add: sizes_inv_def)
  have img: "original_column ?n ` validation_columns h i = ?win (unat i)" if "i < k h" for i
    using validation_columns_nat [OF inv that] by simp
  from fold_of_column [OF K2 assms(2)]
  obtain m where mK: "m < ?K" and cm: "c \<in> ?win m"
    and uniq: "\<And>m'. m' < ?K \<Longrightarrow> c \<in> ?win m' \<Longrightarrow> m' = m"
    by blast
  let ?i = "word_of_nat m :: size_t"
  have "?K < 2 ^ LENGTH(64)" by (rule unsigned_less)
  with mK have "m < 2 ^ LENGTH(64)" by simp
  then have um: "unat ?i = m" by (simp add: unat_of_nat)
  have ik: "?i < k h" using mK by (simp add: word_less_nat_alt um)
  show ?thesis
  proof (rule ex1I [of _ ?i])
    show "?i < k0 \<and> c \<in> original_column ?n ` validation_columns h ?i"
      using ik cm by (simp only: img [OF ik] um f(1))
  next
    fix j
    assume j: "j < k0 \<and> c \<in> original_column ?n ` validation_columns h j"
    then have jk: "j < k h" by (simp add: f(1))
    then have "unat j < ?K" by (simp add: word_less_nat_alt)
    moreover from j have "c \<in> ?win (unat j)" by (simp only: img [OF jk])
    ultimately have "unat j = m" by (rule uniq)
    then show "j = ?i" by (simp add: word_unat_eq_iff um)
  qed
qed

theorem validation_partition_witness:
  "constructed 3 ex_xs ex_ys empty_Mat ex_h \<and> 9 < length (columns ex_xs)
   \<and> (\<exists>!i. i < (3::size_t) \<and> 9 \<in> original_column 10 ` validation_columns ex_h i)"
proof -
  have c: "constructed 3 ex_xs ex_ys empty_Mat ex_h" by (rule ex_constructed)
  have n: "length (columns ex_xs) = 10" by (simp add: ex_xs_def)
  have l: "9 < length (columns ex_xs)" by (simp add: n)
  show ?thesis using validation_partition [OF c l] c l by (simp add: n)
qed

section \<open>The run of the folds\<close>

declare TrainAndEvaluate_loop.simps [simp del]

lemma loop_done:
  "\<not> i < k h \<Longrightarrow> TrainAndEvaluate_loop tr metric h i evs = (h, Inr evs)"
  by (simp add: TrainAndEvaluate_loop.simps [of tr metric h i evs])

lemma loop_train_raises:
  "i < k h \<Longrightarrow> tr h i = Inl e \<Longrightarrow> TrainAndEvaluate_loop tr metric h i evs = (h, Inl e)"
  by (simp add: TrainAndEvaluate_loop.simps [of tr metric h i evs])

lemma loop_metric_raises:
  "i < k h \<Longrightarrow> tr h i = Inr model \<Longrightarrow> EvaluateFold metric h model i = Inl e \<Longrightarrow>
   TrainAndEvaluate_loop tr metric h i evs = (h, Inl e)"
  by (simp add: TrainAndEvaluate_loop.simps [of tr metric h i evs])

lemma loop_step:
  "i < k h \<Longrightarrow> tr h i = Inr model \<Longrightarrow> EvaluateFold metric h model i = Inr score \<Longrightarrow>
   TrainAndEvaluate_loop tr metric h i evs =
     TrainAndEvaluate_loop tr metric
       (if i = k h - 1 then h\<lparr>modelPtr := Some model\<rparr> else h) (i + 1) (evs[unat i := score])"
  by (simp add: TrainAndEvaluate_loop.simps [of tr metric h i evs])

lemma index_step: "i < (n::size_t) \<Longrightarrow> unat (i + 1) = Suc (unat i)"
proof -
  assume "i < n"
  then have "unat i < unat n" by (simp add: word_less_nat_alt)
  moreover have "unat n < 2 ^ 64" using unsigned_less [of n] by simp
  ultimately have "unat i + unat (1::size_t) < 2 ^ LENGTH(64)" by simp
  then show ?thesis by (simp add: unat_add_lem [THEN iffD1])
qed

lemma index_last: "i < (n::size_t) \<Longrightarrow> i + 1 < n \<longleftrightarrow> i \<noteq> n - 1"
proof -
  assume a: "i < n"
  then have n0: "n \<noteq> 0" by auto
  have s: "unat (i + 1) = Suc (unat i)" using a by (rule index_step)
  have p: "unat (n - 1) = unat n - 1" using n0 by (rule unat_minus_one)
  have "unat i < unat n" using a by (simp add: word_less_nat_alt)
  then show ?thesis by (auto simp: word_less_nat_alt word_unat_eq_iff s p)
qed

text \<open>A run that raises leaves the object as it was.\<close>

lemma loop_Inl_unchanged:
  "TrainAndEvaluate_loop tr metric h i evs = (h', Inl e) \<Longrightarrow> h' = h"
proof (induction tr metric h i evs rule: TrainAndEvaluate_loop.induct)
  case (1 tr metric h i evs)
  show ?case
  proof (cases "i < k h")
    case False
    with "1.prems" show ?thesis by (simp add: loop_done)
  next
    case lt: True
    show ?thesis
    proof (cases "tr h i")
      case (Inl e1)
      with lt "1.prems" show ?thesis by (simp add: loop_train_raises)
    next
      case tr: (Inr model)
      show ?thesis
      proof (cases "EvaluateFold metric h model i")
        case (Inl e2)
        with lt tr "1.prems" show ?thesis by (simp add: loop_metric_raises)
      next
        case ev: (Inr score)
        let ?h2 = "if i = k h - 1 then h\<lparr>modelPtr := Some model\<rparr> else h"
        have rec: "TrainAndEvaluate_loop tr metric ?h2 (i + 1) (evs[unat i := score]) = (h', Inl e)"
          using "1.prems" by (simp only: loop_step [where tr = tr and h = h and i = i, OF lt tr ev])
        show ?thesis
        proof (cases "i = k h - 1")
          case True
          then have "\<not> i + 1 < k ?h2" by simp
          then have "TrainAndEvaluate_loop tr metric ?h2 (i + 1) (evs[unat i := score])
              = (?h2, Inr (evs[unat i := score]))" by (rule loop_done)
          with rec show ?thesis by simp
        next
          case False
          have "h' = ?h2" using lt tr ev rec by (rule "1.IH")
          with False show ?thesis by simp
        qed
      qed
    qed
  qed
qed

text \<open>A run that completes retains the model of the last fold.\<close>

lemma loop_Inr_model:
  assumes "TrainAndEvaluate_loop tr metric h i evs = (h', Inr r)"
  shows "if i < k h then \<exists>model. tr h (k h - 1) = Inr model \<and> h' = h\<lparr>modelPtr := Some model\<rparr>
         else h' = h"
  using assms
proof (induction tr metric h i evs rule: TrainAndEvaluate_loop.induct)
  case (1 tr metric h i evs)
  show ?case
  proof (cases "i < k h")
    case False
    with "1.prems" show ?thesis by (simp add: loop_done)
  next
    case lt: True
    show ?thesis
    proof (cases "tr h i")
      case (Inl e1)
      with lt "1.prems" show ?thesis by (simp add: loop_train_raises)
    next
      case tr: (Inr model)
      show ?thesis
      proof (cases "EvaluateFold metric h model i")
        case (Inl e2)
        with lt tr "1.prems" show ?thesis by (simp add: loop_metric_raises)
      next
        case ev: (Inr score)
        let ?h2 = "if i = k h - 1 then h\<lparr>modelPtr := Some model\<rparr> else h"
        have rec: "TrainAndEvaluate_loop tr metric ?h2 (i + 1) (evs[unat i := score]) = (h', Inr r)"
          using "1.prems" by (simp only: loop_step [where tr = tr and h = h and i = i, OF lt tr ev])
        note ih = "1.IH" [OF lt tr ev rec]
        show ?thesis
        proof (cases "i = k h - 1")
          case True
          then have "\<not> i + 1 < k ?h2" by simp
          with ih have "h' = ?h2" by simp
          with True tr lt show ?thesis by auto
        next
          case False
          then have "i + 1 < k h" using lt by (simp add: index_last)
          with ih False lt show ?thesis by simp
        qed
      qed
    qed
  qed
qed

text \<open>The retained model plays no part in training and scoring a fold.\<close>

lemma windows_modelPtr [simp]:
  "GetTrainingSubset (h\<lparr>modelPtr := m\<rparr>) buffer i = GetTrainingSubset h buffer i"
  "GetValidationSubset (h\<lparr>modelPtr := m\<rparr>) buffer i = GetValidationSubset h buffer i"
  by (simp_all add: GetTrainingSubset_def TrainingSubsetSize_def GetValidationSubset_def
      ValidationSubsetFirstCol_def ValidationSubsetSize_def)

lemma EvaluateFold_modelPtr [simp]:
  "EvaluateFold metric (h\<lparr>modelPtr := m\<rparr>) model i = EvaluateFold metric h model i"
  by (simp add: EvaluateFold_def cong: option.case_cong)

lemma trainer_modelPtr [simp]:
  "trainer training (h\<lparr>modelPtr := m\<rparr>) i = trainer training h i"
  by (cases training)
     (simp_all add: trainer_def TrainFold_def TrainFold_weights_def cong: option.case_cong)

lemma fold_score_modelPtr:
  assumes "\<And>g m j. tr (g\<lparr>modelPtr := m\<rparr>) j = tr g j"
  shows "fold_score tr metric (h\<lparr>modelPtr := m\<rparr>) i = fold_score tr metric h i"
  by (simp add: fold_score_def assms cong: sum.case_cong)

lemma fold_score_Inr:
  "fold_score tr metric h i = Inr x \<longleftrightarrow>
   (\<exists>model. tr h i = Inr model \<and> EvaluateFold metric h model i = Inr x)"
  by (simp add: fold_score_def split: sum.splits)

text \<open>The scores of a run that completes are the scores of its folds.\<close>

lemma loop_Inr_scores:
  assumes "\<And>g m j. tr (g\<lparr>modelPtr := m\<rparr>) j = tr g j"
    and "TrainAndEvaluate_loop tr metric h i evs = (h', Inr r)"
    and "length evs = unat (k h)"
  shows "length r = unat (k h) \<and>
    (\<forall>j < unat (k h). if unat i \<le> j then fold_score tr metric h (word_of_nat j) = Inr (r ! j)
                       else r ! j = evs ! j)"
  using assms
proof (induction tr metric h i evs rule: TrainAndEvaluate_loop.induct)
  case (1 tr metric h i evs)
  note indep = "1.prems"(1) and run = "1.prems"(2) and len = "1.prems"(3)
  show ?case
  proof (cases "i < k h")
    case False
    then have "unat (k h) \<le> unat i" by (simp add: word_less_nat_alt)
    moreover from False run have "r = evs" by (simp add: loop_done)
    ultimately show ?thesis using len by simp
  next
    case lt: True
    then have iK: "unat i < unat (k h)" by (simp add: word_less_nat_alt)
    show ?thesis
    proof (cases "tr h i")
      case (Inl e1)
      with lt run show ?thesis by (simp add: loop_train_raises)
    next
      case tr: (Inr model)
      show ?thesis
      proof (cases "EvaluateFold metric h model i")
        case (Inl e2)
        with lt tr run show ?thesis by (simp add: loop_metric_raises)
      next
        case ev: (Inr score)
        let ?h2 = "if i = k h - 1 then h\<lparr>modelPtr := Some model\<rparr> else h"
        let ?evs = "evs[unat i := score]"
        have rec: "TrainAndEvaluate_loop tr metric ?h2 (i + 1) ?evs = (h', Inr r)"
          using run by (simp only: loop_step [where tr = tr and h = h and i = i, OF lt tr ev])
        have k2: "k ?h2 = k h" by simp
        have len2: "length ?evs = unat (k ?h2)" using len by simp
        have fs: "fold_score tr metric ?h2 x = fold_score tr metric h x" for x
          by (simp add: fold_score_modelPtr [OF indep])
        have here: "fold_score tr metric h i = Inr score"
          using tr ev by (simp add: fold_score_def)
        have ih: "length r = unat (k h) \<and>
          (\<forall>j < unat (k h). if Suc (unat i) \<le> j then fold_score tr metric h (word_of_nat j) = Inr (r ! j)
                       else r ! j = ?evs ! j)"
          using "1.IH" [OF lt tr ev indep rec len2]
          unfolding k2 fs index_step [OF lt] .
        show ?thesis
        proof (intro conjI allI impI)
          show "length r = unat (k h)" using ih by simp
        next
          fix j assume j: "j < unat (k h)"
          with ih have c: "if Suc (unat i) \<le> j then fold_score tr metric h (word_of_nat j) = Inr (r ! j)
                       else r ! j = ?evs ! j" by simp
          consider (before) "j < unat i" | (here) "j = unat i" | (after) "Suc (unat i) \<le> j"
            by linarith
          then show "if unat i \<le> j then fold_score tr metric h (word_of_nat j) = Inr (r ! j)
                       else r ! j = evs ! j"
          proof cases
            case before
            with c show ?thesis by simp
          next
            case here
            with c iK len have "r ! j = score" by simp
            moreover have "word_of_nat j = i" using here by simp
            ultimately show ?thesis using here \<open>fold_score tr metric h i = Inr score\<close> by simp
          next
            case after
            with c show ?thesis by simp
          qed
        qed
      qed
    qed
  qed
qed

text \<open>A run whose folds all train and score completes.\<close>

lemma loop_total:
  assumes "\<And>g m j. tr (g\<lparr>modelPtr := m\<rparr>) j = tr g j"
    and "\<forall>j < unat (k h). unat i \<le> j \<longrightarrow> (\<exists>x. fold_score tr metric h (word_of_nat j) = Inr x)"
  shows "\<exists>h' r. TrainAndEvaluate_loop tr metric h i evs = (h', Inr r)"
  using assms
proof (induction tr metric h i evs rule: TrainAndEvaluate_loop.induct)
  case (1 tr metric h i evs)
  note indep = "1.prems"(1) and all = "1.prems"(2)
  show ?case
  proof (cases "i < k h")
    case False
    then show ?thesis by (simp add: loop_done)
  next
    case lt: True
    then have iK: "unat i < unat (k h)" by (simp add: word_less_nat_alt)
    with all obtain x where "fold_score tr metric h (word_of_nat (unat i)) = Inr x" by blast
    then have "fold_score tr metric h i = Inr x" by simp
    then obtain model where tr: "tr h i = Inr model"
      and ev: "EvaluateFold metric h model i = Inr x"
      by (auto simp: fold_score_Inr)
    let ?h2 = "if i = k h - 1 then h\<lparr>modelPtr := Some model\<rparr> else h"
    have fs: "fold_score tr metric ?h2 y = fold_score tr metric h y" for y
      by (simp add: fold_score_modelPtr [OF indep])
    have "\<forall>j < unat (k ?h2). unat (i + 1) \<le> j \<longrightarrow>
        (\<exists>x. fold_score tr metric ?h2 (word_of_nat j) = Inr x)"
      unfolding fs index_step [OF lt] using all by simp
    from "1.IH" [OF lt tr ev indep this]
    show ?thesis
      by (simp only: loop_step [where tr = tr and h = h and i = i, OF lt tr ev])
  qed
qed

lemma Evaluate_loop:
  "Evaluate training metric h =
     (case TrainAndEvaluate_loop (trainer training) metric h 0 (replicate (unat (k h)) 0) of
        (h', Inl e) \<Rightarrow> (h', Inl e)
      | (h', Inr evaluations) \<Rightarrow> (h', Inr (mean evaluations)))"
  by (cases training)
     (simp_all add: Evaluate_def TrainAndEvaluate_def TrainAndEvaluate_weights_def trainer_def)

lemma Evaluate_Inl_iff:
  "Evaluate training metric h = (h', Inl e) \<longleftrightarrow>
   TrainAndEvaluate_loop (trainer training) metric h 0 (replicate (unat (k h)) 0) = (h', Inl e)"
  by (simp add: Evaluate_loop split: prod.splits sum.splits)

lemma Evaluate_Inr_iff:
  "Evaluate training metric h = (h', Inr r) \<longleftrightarrow>
   (\<exists>evs. TrainAndEvaluate_loop (trainer training) metric h 0 (replicate (unat (k h)) 0)
            = (h', Inr evs) \<and> r = mean evs)"
  by (auto simp: Evaluate_loop split: prod.splits sum.splits)

lemma mean_scores:
  assumes "length r = n" and "\<forall>j < n. r ! j = s j"
  shows "mean r = (\<Sum>j < n. s j) / real n"
proof -
  have "sum_list r = (\<Sum>j = 0 ..< length r. r ! j)" by (rule sum_list_sum_nth)
  also have "\<dots> = (\<Sum>j = 0 ..< n. s j)" using assms by (intro sum.cong) simp_all
  also have "\<dots> = (\<Sum>j < n. s j)" by (simp add: lessThan_atLeast0)
  finally show ?thesis using assms(1) by (simp add: mean_def)
qed

text \<open>
  Claim C1. For an object with \<open>k \<ge> 2\<close>, \<open>Evaluate\<close> completes exactly when every
  fold trains and scores, and it then returns the sum of the \<open>k\<close> fold scores divided by
  \<open>k\<close>: each fold counts once, whatever the size of its validation window.
\<close>

theorem Evaluate_mean:
  assumes "2 \<le> k h"
  shows "(\<exists>h'. Evaluate training metric h = (h', Inr r)) \<longleftrightarrow>
    (\<exists>s. (\<forall>j < unat (k h). fold_score (trainer training) metric h (word_of_nat j) = Inr (s j))
         \<and> r = (\<Sum>j < unat (k h). s j) / real (unat (k h)))"
proof
  assume "\<exists>h'. Evaluate training metric h = (h', Inr r)"
  then obtain h' evs where run: "TrainAndEvaluate_loop (trainer training) metric h 0
      (replicate (unat (k h)) 0) = (h', Inr evs)" and r: "r = mean evs"
    by (auto simp: Evaluate_Inr_iff)
  have "length evs = unat (k h) \<and>
    (\<forall>j < unat (k h). if unat (0::size_t) \<le> j
       then fold_score (trainer training) metric h (word_of_nat j) = Inr (evs ! j)
       else evs ! j = replicate (unat (k h)) 0 ! j)"
    by (rule loop_Inr_scores [OF _ run]) simp_all
  then have len: "length evs = unat (k h)"
    and sc: "\<forall>j < unat (k h). fold_score (trainer training) metric h (word_of_nat j) = Inr (evs ! j)"
    by simp_all
  have "mean evs = (\<Sum>j < unat (k h). evs ! j) / real (unat (k h))"
    using len by (rule mean_scores) simp
  with sc r show "\<exists>s. (\<forall>j < unat (k h). fold_score (trainer training) metric h (word_of_nat j) = Inr (s j))
         \<and> r = (\<Sum>j < unat (k h). s j) / real (unat (k h))"
    by blast
next
  assume "\<exists>s. (\<forall>j < unat (k h). fold_score (trainer training) metric h (word_of_nat j) = Inr (s j))
         \<and> r = (\<Sum>j < unat (k h). s j) / real (unat (k h))"
  then obtain s
    where sc: "\<forall>j < unat (k h). fold_score (trainer training) metric h (word_of_nat j) = Inr (s j)"
      and r: "r = (\<Sum>j < unat (k h). s j) / real (unat (k h))" by blast
  have "\<exists>h' evs. TrainAndEvaluate_loop (trainer training) metric h 0
      (replicate (unat (k h)) 0) = (h', Inr evs)"
    using sc by (intro loop_total) auto
  then obtain h' evs where run: "TrainAndEvaluate_loop (trainer training) metric h 0
      (replicate (unat (k h)) 0) = (h', Inr evs)" by blast
  have "length evs = unat (k h) \<and>
    (\<forall>j < unat (k h). if unat (0::size_t) \<le> j
       then fold_score (trainer training) metric h (word_of_nat j) = Inr (evs ! j)
       else evs ! j = replicate (unat (k h)) 0 ! j)"
    by (rule loop_Inr_scores [OF _ run]) simp_all
  then have len: "length evs = unat (k h)"
    and ev: "\<forall>j < unat (k h). fold_score (trainer training) metric h (word_of_nat j) = Inr (evs ! j)"
    by simp_all
  have "\<forall>j < unat (k h). evs ! j = s j" using sc ev by auto
  with len have "mean evs = (\<Sum>j < unat (k h). s j) / real (unat (k h))" by (rule mean_scores)
  with run r show "\<exists>h'. Evaluate training metric h = (h', Inr r)"
    by (auto simp: Evaluate_Inr_iff)
qed

lemma ex_fold_scores:
  "fold_score (trainer (Unweighted ex_train)) ex_metric ex_h 0 = Inr 4"
  "fold_score (trainer (Unweighted ex_train)) ex_metric ex_h 1 = Inr 3"
  "fold_score (trainer (Unweighted ex_train)) ex_metric ex_h 2 = Inr 3"
  by (simp_all add: fold_score_def trainer_def TrainFold_def EvaluateFold_def
      GetTrainingSubset_def GetValidationSubset_def TrainingSubsetSize_def
      ValidationSubsetFirstCol_def ValidationSubsetSize_def colptr_window_def
      ex_h_def ex_train_def ex_metric_def)

theorem Evaluate_mean_witness:
  "(2::size_t) \<le> k ex_h
   \<and> (\<exists>h'. Evaluate (Unweighted ex_train) ex_metric ex_h = (h', Inr (10 / 3)))"
proof -
  have k3: "k ex_h = 3" by (simp add: ex_h_def)
  have k2: "2 \<le> k ex_h" by (simp add: k3)
  have "fold_score (trainer (Unweighted ex_train)) ex_metric ex_h (word_of_nat j)
      = Inr (if j = 0 then 4 else 3)" if "j < 3" for j
  proof -
    from that consider "j = 0" | "j = 1" | "j = 2" by linarith
    then show ?thesis by cases (simp_all add: ex_fold_scores)
  qed
  moreover have "(10::real) / 3 = (\<Sum>j < 3. if j = (0::nat) then 4 else 3) / real 3"
    by (simp add: numeral_3_eq_3)
  ultimately have "\<exists>s. (\<forall>j < unat (k ex_h).
        fold_score (trainer (Unweighted ex_train)) ex_metric ex_h (word_of_nat j) = Inr (s j))
      \<and> 10 / 3 = (\<Sum>j < unat (k ex_h). s j) / real (unat (k ex_h))"
    unfolding k3 by (intro exI [of _ "\<lambda>j. if j = 0 then 4 else 3"]) simp
  with Evaluate_mean [OF k2, of "Unweighted ex_train" ex_metric "10 / 3"] k2
  show ?thesis by simp
qed

section \<open>The retained model\<close>

lemmas ex_unfold =
  Evaluate_def TrainAndEvaluate_def TrainAndEvaluate_loop.simps TrainFold_def EvaluateFold_def
  GetTrainingSubset_def GetValidationSubset_def TrainingSubsetSize_def
  ValidationSubsetFirstCol_def ValidationSubsetSize_def colptr_window_def mean_def
  ex_h_def ex_train_def ex_failing_train_def ex_metric_def

lemma ex_evaluations:
  "(replicate 3 (0::real))[0 := a, Suc 0 := b, 2 := c] = [a, b, c]"
  by (simp add: numeral_3_eq_3 numeral_2_eq_2)

lemma ex_Evaluate:
  "Evaluate (Unweighted ex_train) ex_metric ex_h = (ex_h\<lparr>modelPtr := Some 7\<rparr>, Inr (10 / 3))"
  by (simp add: ex_unfold ex_evaluations)

lemma ex_Evaluate_failing:
  "Evaluate (Unweighted ex_failing_train) ex_metric (ex_h\<lparr>modelPtr := m\<rparr>) =
     (ex_h\<lparr>modelPtr := m\<rparr>, Inl (Raised ''no convergence''))"
  by (simp add: ex_unfold)

lemma Evaluate_Inl_unchanged:
  "Evaluate training metric h = (h', Inl e) \<Longrightarrow> h' = h"
  by (auto simp: Evaluate_Inl_iff dest: loop_Inl_unchanged)

lemma Evaluate_Inr_model:
  assumes "Evaluate training metric h = (h', Inr r)" and "2 \<le> k h"
  shows "\<exists>model. trainer training h (k h - 1) = Inr model \<and> h' = h\<lparr>modelPtr := Some model\<rparr>"
proof -
  from assms(1) obtain evs where run: "TrainAndEvaluate_loop (trainer training) metric h 0
      (replicate (unat (k h)) 0) = (h', Inr evs)"
    by (auto simp: Evaluate_Inr_iff)
  have "0 < k h" using unat_k_ge_2 [OF assms(2)] by (simp add: word_less_nat_alt)
  with loop_Inr_model [OF run] show ?thesis by simp
qed

lemma Evaluate_raises:
  assumes "j < unat (k h)"
    and "fold_score (trainer training) metric h (word_of_nat j) = Inl e0"
  shows "\<exists>e. Evaluate training metric h = (h, Inl e)"
proof (cases "Evaluate training metric h")
  case (Pair h1 res)
  show ?thesis
  proof (cases res)
    case (Inl e)
    with Pair have "h1 = h" by (auto dest: Evaluate_Inl_unchanged)
    with Pair Inl show ?thesis by simp
  next
    case (Inr r)
    with Pair obtain evs where run: "TrainAndEvaluate_loop (trainer training) metric h 0
        (replicate (unat (k h)) 0) = (h1, Inr evs)"
      by (auto simp: Evaluate_Inr_iff)
    have "length evs = unat (k h) \<and>
      (\<forall>j < unat (k h). if unat (0::size_t) \<le> j
         then fold_score (trainer training) metric h (word_of_nat j) = Inr (evs ! j)
         else evs ! j = replicate (unat (k h)) 0 ! j)"
      by (rule loop_Inr_scores [OF _ run]) simp_all
    with assms(1) have "fold_score (trainer training) metric h (word_of_nat j) = Inr (evs ! j)"
      by simp
    with assms(2) show ?thesis by simp
  qed
qed

text \<open>
  Claim C10. When \<open>Evaluate\<close> raises, the object is left exactly as it was before the
  call, so \<open>Model\<close> answers as before: with the model of an earlier run, or with the
  not-initialised error. And \<open>Evaluate\<close> raises, leaving the object as it was, as soon
  as the training or the scoring of some fold raises.
\<close>

theorem failed_run_keeps_model:
  "(Evaluate training metric h = (h', Inl e) \<longrightarrow>
      h' = h \<and> modelPtr h' = modelPtr h \<and> Model h' = Model h)
   \<and> (j < unat (k h) \<and> fold_score (trainer training) metric h (word_of_nat j) = Inl e0 \<longrightarrow>
      (\<exists>e1. Evaluate training metric h = (h, Inl e1)))"
proof (rule conjI; rule impI)
  assume "Evaluate training metric h = (h', Inl e)"
  then have "h' = h" by (rule Evaluate_Inl_unchanged)
  then show "h' = h \<and> modelPtr h' = modelPtr h \<and> Model h' = Model h" by simp
next
  assume "j < unat (k h) \<and> fold_score (trainer training) metric h (word_of_nat j) = Inl e0"
  then show "\<exists>e1. Evaluate training metric h = (h, Inl e1)"
    by (auto intro: Evaluate_raises)
qed

theorem failed_run_keeps_model_witness:
  "Evaluate (Unweighted ex_failing_train) ex_metric (ex_h\<lparr>modelPtr := Some 42\<rparr>) =
     (ex_h\<lparr>modelPtr := Some 42\<rparr>, Inl (Raised ''no convergence''))
   \<and> 2 < unat (k (ex_h\<lparr>modelPtr := Some 42\<rparr>))
   \<and> fold_score (trainer (Unweighted ex_failing_train)) ex_metric
        (ex_h\<lparr>modelPtr := Some 42\<rparr>) (word_of_nat 2) = Inl (Raised ''no convergence'')
   \<and> Model (ex_h\<lparr>modelPtr := Some 42\<rparr>) = Inr 42"
proof -
  have a: "Evaluate (Unweighted ex_failing_train) ex_metric (ex_h\<lparr>modelPtr := Some 42\<rparr>) =
     (ex_h\<lparr>modelPtr := Some 42\<rparr>, Inl (Raised ''no convergence''))"
    by (rule ex_Evaluate_failing)
  have b: "2 < unat (k (ex_h\<lparr>modelPtr := Some 42\<rparr>))" by (simp add: ex_h_def)
  have c: "fold_score (trainer (Unweighted ex_failing_train)) ex_metric
        (ex_h\<lparr>modelPtr := Some 42\<rparr>) (word_of_nat 2) = Inl (Raised ''no convergence'')"
    by (simp add: fold_score_def trainer_def TrainFold_def GetTrainingSubset_def
        TrainingSubsetSize_def colptr_window_def ex_h_def ex_failing_train_def)
  have d: "Model (ex_h\<lparr>modelPtr := Some 42\<rparr>) = Inr 42" by (simp add: Model_def)
  from failed_run_keeps_model [of "Unweighted ex_failing_train" ex_metric
      "ex_h\<lparr>modelPtr := Some 42\<rparr>" "ex_h\<lparr>modelPtr := Some 42\<rparr>" "Raised ''no convergence''"
      2 "Raised ''no convergence''"] a b c d
  show ?thesis by simp
qed

lemma Evaluate_k: "Evaluate training metric h = (h', res) \<Longrightarrow> 2 \<le> k h \<Longrightarrow> k h' = k h"
proof (cases res)
  case (Inl e)
  assume "Evaluate training metric h = (h', res)"
  with Inl show ?thesis by (auto dest: Evaluate_Inl_unchanged)
next
  case (Inr r)
  assume "Evaluate training metric h = (h', res)" and "2 \<le> k h"
  with Inr show ?thesis by (auto dest: Evaluate_Inr_model)
qed

text \<open>
  After a row of calls: the model pointer is set once a call has completed, and the
  object is the initial one as long as none has.
\<close>

lemma Evaluate_calls_model:
  assumes "Evaluate_calls metric trainings h0 = (h, outcomes)" and "2 \<le> k h0"
  shows "k h = k h0 \<and> (if \<exists>r \<in> set outcomes. \<not> isl r then modelPtr h \<noteq> None else h = h0)"
  using assms
proof (induction trainings arbitrary: h0 h outcomes)
  case Nil
  then show ?case by simp
next
  case (Cons training rest)
  obtain h1 res where first: "Evaluate training metric h0 = (h1, res)"
    by (cases "Evaluate training metric h0")
  obtain h2 rs where others: "Evaluate_calls metric rest h1 = (h2, rs)"
    by (cases "Evaluate_calls metric rest h1")
  from Cons.prems(1) first others have h: "h = h2" and out: "outcomes = res # rs" by simp_all
  have k1: "k h1 = k h0" using first Cons.prems(2) by (rule Evaluate_k)
  then have "2 \<le> k h1" using Cons.prems(2) by simp
  with others have ih: "k h2 = k h1 \<and>
      (if \<exists>r \<in> set rs. \<not> isl r then modelPtr h2 \<noteq> None else h2 = h1)"
    by (rule Cons.IH)
  show ?case
  proof (cases res)
    case (Inl e)
    with first have "h1 = h0" by (auto dest: Evaluate_Inl_unchanged)
    with ih Inl show ?thesis by (simp add: h out)
  next
    case (Inr r)
    with first Cons.prems(2) have "modelPtr h1 \<noteq> None" by (auto dest: Evaluate_Inr_model)
    with ih Inr k1 show ?thesis by (auto simp: h out split: if_splits)
  qed
qed

text \<open>
  Claim C9. On a constructed object, after any row of \<open>Evaluate\<close> calls: if none of
  the calls has completed, \<open>Model\<close> raises \<^verbatim>\<open>std::logic_error\<close>; if one has, \<open>Model\<close>
  returns a model. And a call of \<open>Evaluate\<close> that completes leaves the model trained in
  its last fold as the one that \<open>Model\<close> returns.
\<close>

theorem Model_access:
  assumes "constructed k0 xs0 ys0 weights0 h0"
    and "Evaluate_calls metric trainings h0 = (h, outcomes)"
  shows "((\<forall>r \<in> set outcomes. isl r) \<longrightarrow>
        Model h = Inl (logic_error ''KFoldCV::Model(): attempted to access an uninitialized model''))
    \<and> ((\<exists>r \<in> set outcomes. \<not> isl r) \<longrightarrow> (\<exists>model. Model h = Inr model))
    \<and> (Evaluate training metric h = (h', Inr r) \<longrightarrow>
        (\<exists>model. trainer training h (k0 - 1) = Inr model \<and> Model h' = Inr model))"
proof -
  note f = constructed_facts [OF assms(1)]
  have k2: "2 \<le> k h0" using f(1) f(2) by simp
  note c = Evaluate_calls_model [OF assms(2) k2]
  have kh: "k h = k0" using c f(1) by simp
  show ?thesis
  proof (intro conjI impI)
    assume "\<forall>r \<in> set outcomes. isl r"
    with c have "h = h0" by auto
    then show "Model h =
        Inl (logic_error ''KFoldCV::Model(): attempted to access an uninitialized model'')"
      by (simp add: Model_def f(8))
  next
    assume "\<exists>r \<in> set outcomes. \<not> isl r"
    with c have "modelPtr h \<noteq> None" by auto
    then show "\<exists>model. Model h = Inr model" by (auto simp: Model_def)
  next
    assume "Evaluate training metric h = (h', Inr r)"
    moreover have "2 \<le> k h" using kh f(2) by simp
    ultimately obtain model where "trainer training h (k h - 1) = Inr model"
      and "h' = h\<lparr>modelPtr := Some model\<rparr>" by (auto dest: Evaluate_Inr_model)
    then show "\<exists>model. trainer training h (k0 - 1) = Inr model \<and> Model h' = Inr model"
      by (simp add: kh Model_def)
  qed
qed

theorem Model_access_witness:
  "constructed 3 ex_xs ex_ys empty_Mat ex_h
   \<and> Evaluate_calls ex_metric [Unweighted ex_failing_train] ex_h =
       (ex_h, [Inl (Raised ''no convergence'')])
   \<and> Model ex_h =
       Inl (logic_error ''KFoldCV::Model(): attempted to access an uninitialized model'')
   \<and> Evaluate_calls ex_metric [Unweighted ex_failing_train, Unweighted ex_train] ex_h =
       (ex_h\<lparr>modelPtr := Some 7\<rparr>, [Inl (Raised ''no convergence''), Inr (10 / 3)])
   \<and> trainer (Unweighted ex_train) ex_h 2 = Inr 7
   \<and> Model (ex_h\<lparr>modelPtr := Some 7\<rparr>) = Inr 7"
proof -
  have c: "constructed 3 ex_xs ex_ys empty_Mat ex_h" by (rule ex_constructed)
  have failing: "Evaluate (Unweighted ex_failing_train) ex_metric ex_h =
      (ex_h, Inl (Raised ''no convergence''))"
    using ex_Evaluate_failing [of None] by (simp add: ex_h_def)
  have run: "Evaluate (Unweighted ex_train) ex_metric ex_h =
      (ex_h\<lparr>modelPtr := Some 7\<rparr>, Inr (10 / 3))" by (rule ex_Evaluate)
  have calls1: "Evaluate_calls ex_metric [Unweighted ex_failing_train] ex_h =
       (ex_h, [Inl (Raised ''no convergence'')])"
    by (simp add: failing)
  have calls2: "Evaluate_calls ex_metric [Unweighted ex_failing_train, Unweighted ex_train] ex_h =
       (ex_h\<lparr>modelPtr := Some 7\<rparr>, [Inl (Raised ''no convergence''), Inr (10 / 3)])"
    by (simp add: failing run)
  have t: "trainer (Unweighted ex_train) ex_h 2 = Inr 7"
    by (simp add: trainer_def TrainFold_def GetTrainingSubset_def TrainingSubsetSize_def
        colptr_window_def ex_h_def ex_train_def)
  have m: "Model (ex_h\<lparr>modelPtr := Some 7\<rparr>) = Inr (7::nat)" by (simp add: Model_def)
  from Model_access [OF c calls1, of "Unweighted ex_train" "ex_h\<lparr>modelPtr := Some 7\<rparr>" "10 / 3"]
    Model_access [OF c calls2, of "Unweighted ex_train" "ex_h\<lparr>modelPtr := Some 7\<rparr>" "10 / 3"]
    c calls1 calls2 t m
  show ?thesis by simp
qed

section \<open>Runs on a constructed object\<close>

text \<open>
  In a constructed object no window of a fold leaves its buffer: a run raises only
  what the training or the metric raises.
\<close>

lemma constructed_windows_defined:
  assumes c: "constructed k0 xs0 ys0 weights0 h" and i: "i < k0"
  shows "\<exists>tx ty vx vy.
      GetTrainingSubset h (xs h) i = Some tx \<and> GetTrainingSubset h (ys h) i = Some ty
    \<and> GetValidationSubset h (xs h) i = Some vx \<and> GetValidationSubset h (ys h) i = Some vy
    \<and> (n_elem (weights h) > 0 \<longrightarrow> (\<exists>tw. GetTrainingSubset h (weights h) i = Some tw))"
proof -
  let ?n = "length (columns xs0)"
  note f = constructed_facts [OF c]
  note len = constructed_lengths [OF c]
  have inv: "sizes_inv ?n h" by (rule f(5))
  have ik: "i < k h" using i by (simp add: f(1))
  note r = windows_in_range [OF inv ik]
  have t: "unat (binSize h * i) + unat (TrainingSubsetSize h i) \<le> length (columns (xs h))"
    "unat (binSize h * i) + unat (TrainingSubsetSize h i) \<le> length (columns (ys h))"
    using r(1) by (simp_all only: len)
  have v: "unat (ValidationSubsetFirstCol h i) + unat (ValidationSubsetSize h i)
      \<le> length (columns (xs h))"
    "unat (ValidationSubsetFirstCol h i) + unat (ValidationSubsetSize h i)
      \<le> length (columns (ys h))"
    using r(2) by (simp_all add: len)
  have w: "\<exists>tw. GetTrainingSubset h (weights h) i = Some tw" if "n_elem (weights h) > 0"
  proof -
    from c have "KFoldCV_ctor k0 xs0 ys0 = Inr h \<or> KFoldCV_ctor_weights k0 xs0 ys0 weights0 = Inr h"
      by (simp add: constructed_def)
    then show ?thesis
    proof
      assume "KFoldCV_ctor k0 xs0 ys0 = Inr h"
      then have "weights h = empty_Mat" by (rule f(9))
      with that show ?thesis by (simp add: n_elem_def empty_Mat_def)
    next
      assume ok: "KFoldCV_ctor_weights k0 xs0 ys0 weights0 = Inr h"
      have "unat (binSize h * i) + unat (TrainingSubsetSize h i) \<le> length (columns (weights h))"
        using r(1) by (simp only: len(3) [OF ok])
      then show ?thesis by (simp add: GetTrainingSubset_def colptr_window_Some)
    qed
  qed
  show ?thesis
    using t v w by (simp add: GetTrainingSubset_def GetValidationSubset_def colptr_window_Some)
qed

lemma constructed_fold_score:
  assumes c: "constructed k0 xs0 ys0 weights0 h" and i: "i < k0"
  shows "\<exists>tx ty vx vy.
      GetTrainingSubset h (xs h) i = Some tx \<and> GetTrainingSubset h (ys h) i = Some ty
    \<and> GetValidationSubset h (xs h) i = Some vx \<and> GetValidationSubset h (ys h) i = Some vy
    \<and> fold_score (trainer (Unweighted train)) metric h i =
         (case train tx ty of Inl e \<Rightarrow> Inl e | Inr model \<Rightarrow> metric model vx vy)"
proof -
  from constructed_windows_defined [OF c i] obtain tx ty vx vy where
    "GetTrainingSubset h (xs h) i = Some tx" "GetTrainingSubset h (ys h) i = Some ty"
    "GetValidationSubset h (xs h) i = Some vx" "GetValidationSubset h (ys h) i = Some vy"
    by blast
  then show ?thesis
    by (simp add: fold_score_def trainer_def TrainFold_def EvaluateFold_def
        cong: sum.case_cong)
qed

end
